theory Spec2Isabelle
  imports Main "HOL-Library.Word" "HOL-Library.Stream"
begin

unbundle bit_operations_syntax

section \<open>Bytes, strings and results\<close>

text \<open>
  A Go \<^verbatim>\<open>[]byte\<close> is a list of 8-bit words, a \<^verbatim>\<open>uint16\<close> a 16-bit word. A Go
  \<^verbatim>\<open>string\<close> is an immutable sequence of bytes, and the conversions \<^verbatim>\<open>string(b)\<close> and
  \<^verbatim>\<open>copy(b, s)\<close> keep the bytes as they are, so strings are byte lists too. \<open>str\<close> gives
  the bytes of a string literal of the source.
\<close>

type_synonym byte = "8 word"
type_synonym uint16 = "16 word"
type_synonym gostring = "byte list"

definition str :: "string \<Rightarrow> gostring" where
  "str s = map of_char s"

text \<open>
  The four error values of \<^verbatim>\<open>packet.go\<close>. A function of the source ends in one of three
  ways: it returns a value, it returns one of these errors, or it panics (the explicit
  \<^verbatim>\<open>panic\<close> of \<^verbatim>\<open>packRQ\<close>, or the run-time panic of an index or a slice out of range).
\<close>

datatype error = ErrInvalidPacket | ErrPacketTooShort | ErrInvalidOpcode | ErrMissingNullTerm

datatype panic = UnsupportedMode gostring | OutOfRange

datatype 'a result = Ok 'a | Err error | Panic panic

fun andThen :: "'a result \<Rightarrow> ('a \<Rightarrow> 'b result) \<Rightarrow> 'b result" where
  "andThen (Ok x) f = f x"
| "andThen (Err e) f = Err e"
| "andThen (Panic p) f = Panic p"

subsection \<open>The operations on byte slices that the codec uses\<close>

text \<open>
  \<^verbatim>\<open>make([]byte, n)\<close> is \<open>n\<close> zero bytes. \<open>slice b lo hi\<close> is \<^verbatim>\<open>b[lo:hi]\<close>, \<open>store b i v\<close> is
  \<^verbatim>\<open>b[i] = v\<close>, \<open>copy_into b lo src\<close> is \<^verbatim>\<open>copy(b[lo:], src)\<close> (it copies as many bytes as fit),
  \<open>PutUint16 b lo hi v\<close> is \<^verbatim>\<open>binary.BigEndian.PutUint16(b[lo:hi], v)\<close> and \<open>Uint16 b lo hi\<close> is
  \<^verbatim>\<open>binary.BigEndian.Uint16(b[lo:hi])\<close>. Each one panics where Go does: a slice expression
  needs \<open>lo \<le> hi \<le> len(b)\<close>, an index needs \<open>i < len(b)\<close>, and the two big-endian
  functions need a slice of two bytes at least.
\<close>

definition makeBytes :: "nat \<Rightarrow> byte list" where
  "makeBytes n = replicate n 0"

definition slice :: "byte list \<Rightarrow> nat \<Rightarrow> nat \<Rightarrow> byte list result" where
  "slice b lo hi =
     (if lo \<le> hi \<and> hi \<le> length b then Ok (take (hi - lo) (drop lo b)) else Panic OutOfRange)"

definition store :: "byte list \<Rightarrow> nat \<Rightarrow> byte \<Rightarrow> byte list result" where
  "store b i v = (if i < length b then Ok (b[i := v]) else Panic OutOfRange)"

definition copy_into :: "byte list \<Rightarrow> nat \<Rightarrow> byte list \<Rightarrow> byte list result" where
  "copy_into b lo src =
     (if lo \<le> length b
      then let n = min (length b - lo) (length src)
           in Ok (take lo b @ take n src @ drop (lo + n) b)
      else Panic OutOfRange)"

definition PutUint16 :: "byte list \<Rightarrow> nat \<Rightarrow> nat \<Rightarrow> uint16 \<Rightarrow> byte list result" where
  "PutUint16 b lo hi v =
     (if lo \<le> hi \<and> hi \<le> length b \<and> 2 \<le> hi - lo
      then Ok (b[lo := ucast (drop_bit 8 v), lo + 1 := ucast v])
      else Panic OutOfRange)"

definition Uint16 :: "byte list \<Rightarrow> nat \<Rightarrow> nat \<Rightarrow> uint16 result" where
  "Uint16 b lo hi =
     (if lo \<le> hi \<and> hi \<le> length b \<and> 2 \<le> hi - lo
      then Ok (ucast (b ! (lo + 1)) OR push_bit 8 (ucast (b ! lo)))
      else Panic OutOfRange)"

section \<open>The packet codec (pkg/tftp/packet.go)\<close>

definition RRQ :: uint16 where "RRQ = 1"
definition WRQ :: uint16 where "WRQ = 2"
definition DATA :: uint16 where "DATA = 3"
definition ACK :: uint16 where "ACK = 4"
definition ERROR :: uint16 where "ERROR = 5"

definition ErrNotDefined :: uint16 where "ErrNotDefined = 0"
definition ErrFileNotFound :: uint16 where "ErrFileNotFound = 1"
definition ErrAccessViolation :: uint16 where "ErrAccessViolation = 2"

definition ModeNetascii :: gostring where "ModeNetascii = str ''netascii''"
definition ModeOctet :: gostring where "ModeOctet = str ''octet''"
definition ModeMail :: gostring where "ModeMail = str ''mail''"

record ReadRequest =
  Filename :: gostring
  Mode :: gostring

record WriteRequest =
  Filename :: gostring
  Mode :: gostring

record DataPacket =
  Block :: uint16
  Data :: "byte list"

record AckPacket =
  Block :: uint16

record ErrorPacket =
  Code :: uint16
  Message :: gostring

definition isValidMode :: "gostring \<Rightarrow> bool" where
  "isValidMode mode = (mode = ModeNetascii \<or> mode = ModeOctet \<or> mode = ModeMail)"

definition packRQ :: "uint16 \<Rightarrow> gostring \<Rightarrow> gostring \<Rightarrow> byte list result" where
  "packRQ opcode filename mode =
     (if \<not> isValidMode mode then Panic (UnsupportedMode mode)
      else
        andThen (PutUint16 (makeBytes (2 + length filename + 1 + length mode + 1)) 0 2 opcode)
          (\<lambda>packet.
        andThen (copy_into packet 2 filename) (\<lambda>packet.
        andThen (store packet (2 + length filename) 0) (\<lambda>packet.
        andThen (copy_into packet (2 + length filename + 1) mode) (\<lambda>packet.
        store packet (2 + length filename + 1 + length mode) 0)))))"

text \<open>
  The two \<^verbatim>\<open>for i, b := range ... { if b == 0 { end = i; break } }\<close> loops of
  \<^verbatim>\<open>unpackRQ\<close>: the index of the first NUL, or the initial \<open>-1\<close> when the loop runs out.
\<close>

fun scanNul :: "byte list \<Rightarrow> int \<Rightarrow> int" where
  "scanNul [] i = - 1"
| "scanNul (b # bs) i = (if b = 0 then i else scanNul bs (i + 1))"

definition unpackRQ :: "byte list \<Rightarrow> (gostring \<times> gostring) result" where
  "unpackRQ packet =
     (if length packet < 4 then Err ErrPacketTooShort
      else
        andThen (slice packet 2 (length packet)) (\<lambda>data.
        let filenameEnd = scanNul data 0 in
        if filenameEnd = - 1 then Err ErrMissingNullTerm
        else
          andThen (slice data 0 (nat filenameEnd)) (\<lambda>filename.
          if filenameEnd + 1 \<ge> int (length data) then Err ErrInvalidPacket
          else
            andThen (slice data (nat (filenameEnd + 1)) (length data)) (\<lambda>modeData.
            let modeEnd = scanNul modeData 0 in
            if modeEnd = - 1 then Err ErrMissingNullTerm
            else
              andThen (slice modeData 0 (nat modeEnd)) (\<lambda>mode.
              Ok (filename, mode))))))"

text \<open>
  \<open>opcodeDiffers\<close> is the guard \<^verbatim>\<open>len(data) < 2 || Uint16(data[0:2]) != uint16(op)\<close> of
  \<^verbatim>\<open>ParseRRQ\<close> and \<^verbatim>\<open>ParseWRQ\<close>, with the short-circuit of \<^verbatim>\<open>||\<close>.
\<close>

definition opcodeDiffers :: "byte list \<Rightarrow> uint16 \<Rightarrow> bool result" where
  "opcodeDiffers data op =
     (if length data < 2 then Ok True
      else andThen (Uint16 data 0 2) (\<lambda>w. Ok (w \<noteq> op)))"

definition ReadRequest_Serialize :: "ReadRequest \<Rightarrow> byte list result" where
  "ReadRequest_Serialize rq = packRQ RRQ (ReadRequest.Filename rq) (ReadRequest.Mode rq)"

definition ParseRRQ :: "byte list \<Rightarrow> ReadRequest result" where
  "ParseRRQ data =
     andThen (opcodeDiffers data RRQ) (\<lambda>bad.
     if bad then Err ErrInvalidOpcode
     else andThen (unpackRQ data) (\<lambda>(filename, mode).
          Ok \<lparr>ReadRequest.Filename = filename, Mode = mode\<rparr>))"

definition WriteRequest_Serialize :: "WriteRequest \<Rightarrow> byte list result" where
  "WriteRequest_Serialize wr = packRQ WRQ (WriteRequest.Filename wr) (WriteRequest.Mode wr)"

definition ParseWRQ :: "byte list \<Rightarrow> WriteRequest result" where
  "ParseWRQ data =
     andThen (opcodeDiffers data WRQ) (\<lambda>bad.
     if bad then Err ErrInvalidOpcode
     else andThen (unpackRQ data) (\<lambda>(filename, mode).
          Ok \<lparr>WriteRequest.Filename = filename, Mode = mode\<rparr>))"

definition PackDATA :: "uint16 \<Rightarrow> byte list \<Rightarrow> byte list result" where
  "PackDATA block data =
     andThen (PutUint16 (makeBytes (4 + length data)) 0 2 DATA) (\<lambda>packet.
     andThen (PutUint16 packet 2 4 block) (\<lambda>packet.
     copy_into packet 4 data))"

definition DataPacket_Serialize :: "DataPacket \<Rightarrow> byte list result" where
  "DataPacket_Serialize p = PackDATA (DataPacket.Block p) (Data p)"

definition ParseDATA :: "byte list \<Rightarrow> DataPacket result" where
  "ParseDATA packet =
     (if length packet < 4 then Err ErrPacketTooShort
      else
        andThen (Uint16 packet 0 2) (\<lambda>w.
        if w \<noteq> DATA then Err ErrInvalidOpcode
        else
          andThen (Uint16 packet 2 4) (\<lambda>block.
          andThen (slice packet 4 (length packet)) (\<lambda>payload.
          Ok \<lparr>DataPacket.Block = block, Data = payload\<rparr>))))"

definition PackACK :: "uint16 \<Rightarrow> byte list result" where
  "PackACK block =
     andThen (PutUint16 (makeBytes 4) 0 2 ACK) (\<lambda>packet.
     PutUint16 packet 2 4 block)"

definition AckPacket_Serialize :: "AckPacket \<Rightarrow> byte list result" where
  "AckPacket_Serialize p = PackACK (AckPacket.Block p)"

definition ParseACK :: "byte list \<Rightarrow> AckPacket result" where
  "ParseACK packet =
     (if length packet < 4 then Err ErrPacketTooShort
      else
        andThen (Uint16 packet 0 2) (\<lambda>w.
        if w \<noteq> ACK then Err ErrInvalidOpcode
        else
          andThen (Uint16 packet 2 4) (\<lambda>block.
          Ok \<lparr>AckPacket.Block = block\<rparr>)))"

definition PackERROR :: "uint16 \<Rightarrow> gostring \<Rightarrow> byte list result" where
  "PackERROR code msg =
     andThen (PutUint16 (makeBytes (4 + length msg + 1)) 0 2 ERROR) (\<lambda>packet.
     andThen (PutUint16 packet 2 4 code) (\<lambda>packet.
     andThen (copy_into packet 4 msg) (\<lambda>packet.
     store packet (length packet - 1) 0)))"

definition ErrorPacket_Serialize :: "ErrorPacket \<Rightarrow> byte list result" where
  "ErrorPacket_Serialize p = PackERROR (Code p) (Message p)"

definition ParseERROR :: "byte list \<Rightarrow> ErrorPacket result" where
  "ParseERROR packet =
     (if length packet < 5 then Err ErrPacketTooShort
      else
        andThen (Uint16 packet 0 2) (\<lambda>w.
        if w \<noteq> ERROR then Err ErrInvalidOpcode
        else if packet ! (length packet - 1) \<noteq> 0 then Err ErrMissingNullTerm
        else
          andThen (Uint16 packet 2 4) (\<lambda>code.
          andThen (slice packet 4 (length packet - 1)) (\<lambda>msg.
          Ok \<lparr>Code = code, Message = msg\<rparr>))))"


section \<open>The read-request server (package main)\<close>

definition BlockSize :: nat where "BlockSize = 512"
definition MaxRetries :: nat where "MaxRetries = 3"

subsection \<open>The environment of one transfer\<close>

text \<open>
  The file handle that \<^verbatim>\<open>os.Open\<close> returns: the bytes not read yet and, for a device that
  fails, the number of reads that still succeed (\<open>None\<close>: no read ever fails).
  \<open>file_Read f n\<close> is \<^verbatim>\<open>file.Read(buf)\<close> with \<open>len(buf) = n\<close> on a regular file: it
  returns the next bytes, at most \<open>n\<close> of them (no byte at all, with \<^verbatim>\<open>io.EOF\<close>, at the end
  of the file), or an error other than \<^verbatim>\<open>io.EOF\<close>. The server treats \<^verbatim>\<open>io.EOF\<close> as success,
  so the model returns the bytes read (\<^verbatim>\<open>buf[:n]\<close>) or the fault.
\<close>

record File =
  unread :: "byte list"
  fault_after :: "nat option"

datatype read_fault = ReadFault

definition file_Read :: "File \<Rightarrow> nat \<Rightarrow> (read_fault + byte list) \<times> File" where
  "file_Read f n =
     (case fault_after f of
        Some 0 \<Rightarrow> (Inl ReadFault, f)
      | Some (Suc k) \<Rightarrow>
          (Inr (take n (unread f)), f\<lparr>unread := drop n (unread f), fault_after := Some k\<rparr>)
      | None \<Rightarrow> (Inr (take n (unread f)), f\<lparr>unread := drop n (unread f)\<rparr>))"

text \<open>
  What the network does in one pass of the send loop: \<^verbatim>\<open>conn.Write(dataPacket)\<close> fails, or
  it succeeds and \<^verbatim>\<open>conn.ReadFrom(ackBuf)\<close> times out, fails with another error, or returns
  \<open>n\<close> bytes in the four-byte buffer \<open>ackBuf\<close>. An unending sequence of these outcomes is
  the input of a transfer.
\<close>

datatype net_event =
    WriteFails
  | ReadTimeout
  | ReadFails
  | Received nat "byte list"

text \<open>
  What a transfer does to the outside, in order: the file it opens, the data packets it
  writes to the client's connection, the datagrams it reads from it, and the error packets
  it sends through the server's socket. Log lines are left out.
\<close>

datatype action =
    OpenFile gostring
  | SendData "byte list"
  | Recv nat "byte list"
  | SendError "byte list"

text \<open>
  How \<^verbatim>\<open>serveReadRequest\<close> ends. The last two endings are there for the calls of the
  encoders, whose result type has an error and a panic: the encoders never produce them.
\<close>

datatype ending =
    Completed
  | NoAck
  | UnsupportedTransferMode
  | AccessDenied
  | FileNotFound
  | CannotOpen
  | DialFailed
  | FileReadError
  | WriteError
  | ReadError
  | Failed error
  | Crashed panic

text \<open>
  The path functions of the Go library (\<^verbatim>\<open>filepath.Join\<close> of two elements,
  \<^verbatim>\<open>filepath.Clean\<close>, \<^verbatim>\<open>filepath.Rel\<close> with \<open>None\<close> for its error), \<^verbatim>\<open>os.Open\<close> and the
  success of \<^verbatim>\<open>net.DialUDP\<close> are parameters of the model.
\<close>

datatype open_result = Opened File | NotExist | OpenError

record system =
  Join :: "gostring \<Rightarrow> gostring \<Rightarrow> gostring"
  Clean :: "gostring \<Rightarrow> gostring"
  Rel :: "gostring \<Rightarrow> gostring \<Rightarrow> gostring option"
  Open :: "gostring \<Rightarrow> open_result"
  DialUDP :: bool

definition HasPrefix :: "gostring \<Rightarrow> gostring \<Rightarrow> bool" where
  "HasPrefix s prefix = (length s \<ge> length prefix \<and> take (length prefix) s = prefix)"

subsection \<open>sendError and the transfer loop\<close>

definition sendError :: "uint16 \<Rightarrow> gostring \<Rightarrow> action list \<Rightarrow> action list result" where
  "sendError code msg tr =
     andThen (PackERROR code msg) (\<lambda>packet. Ok (tr @ [SendError packet]))"

text \<open>
  The loop labelled \<^verbatim>\<open>sendLoop\<close>. It either leaves the function (\<open>Returned\<close>) or leaves the
  loop (\<open>Exited\<close>, by \<^verbatim>\<open>break\<close> or because \<^verbatim>\<open>retries < MaxRetries\<close> is false) with the value of
  \<^verbatim>\<open>retries\<close>. Nothing bounds the number of passes, so the loop is a partial function:
  \<open>None\<close> is a loop that runs forever.
\<close>

datatype loop_exit = Returned ending | Exited nat

partial_function (option) sendLoop ::
  "uint16 \<Rightarrow> byte list \<Rightarrow> nat \<Rightarrow> action list \<Rightarrow> net_event stream
    \<Rightarrow> (loop_exit \<times> action list \<times> net_event stream) option"
where
  "sendLoop block dataPacket retries tr evs =
     (if retries < MaxRetries then
        (case shd evs of
           WriteFails \<Rightarrow> Some (Returned WriteError, tr, stl evs)
         | ReadTimeout \<Rightarrow>
             sendLoop block dataPacket (retries + 1) (tr @ [SendData dataPacket]) (stl evs)
         | ReadFails \<Rightarrow> Some (Returned ReadError, tr @ [SendData dataPacket], stl evs)
         | Received n ackBuf \<Rightarrow>
             (if n \<noteq> 4 then
                sendLoop block dataPacket retries
                  (tr @ [SendData dataPacket, Recv n ackBuf]) (stl evs)
              else
                (case ParseACK ackBuf of
                   Err parseErr \<Rightarrow>
                     sendLoop block dataPacket retries
                       (tr @ [SendData dataPacket, Recv n ackBuf]) (stl evs)
                 | Ok parsedAck \<Rightarrow>
                     if AckPacket.Block parsedAck \<noteq> block then
                       sendLoop block dataPacket retries
                         (tr @ [SendData dataPacket, Recv n ackBuf]) (stl evs)
                     else
                       Some (Exited retries, tr @ [SendData dataPacket, Recv n ackBuf], stl evs)
                 | Panic p \<Rightarrow>
                     Some (Returned (Crashed p), tr @ [SendData dataPacket, Recv n ackBuf],
                           stl evs))))
      else Some (Exited retries, tr, evs))"

text \<open>
  The outer \<^verbatim>\<open>for\<close> loop of \<^verbatim>\<open>serveReadRequest\<close>, from the read of the next chunk. The result
  is the ending, the value of \<^verbatim>\<open>block\<close> at that moment and the actions so far.
\<close>

partial_function (option) serveLoop ::
  "File \<Rightarrow> uint16 \<Rightarrow> action list \<Rightarrow> net_event stream
    \<Rightarrow> (ending \<times> uint16 \<times> action list) option"
where
  "serveLoop file block tr evs =
     (case file_Read file BlockSize of
        (Inl fault, file') \<Rightarrow> Some (FileReadError, block, tr)
      | (Inr chunk, file') \<Rightarrow>
          (case PackDATA block chunk of
             Ok dataPacket \<Rightarrow>
               (case sendLoop block dataPacket 0 tr evs of
                  None \<Rightarrow> None
                | Some (Returned e, tr', evs') \<Rightarrow> Some (e, block, tr')
                | Some (Exited retries, tr', evs') \<Rightarrow>
                    if retries \<ge> MaxRetries then
                      (case sendError ErrNotDefined (str ''Transfer failed: no ACK'') tr' of
                         Ok tr'' \<Rightarrow> Some (NoAck, block, tr'')
                       | Err e \<Rightarrow> Some (Failed e, block, tr')
                       | Panic p \<Rightarrow> Some (Crashed p, block, tr'))
                    else
                      (let block' = block + 1 in
                       if length chunk < BlockSize then Some (Completed, block', tr')
                       else serveLoop file' block' tr' evs'))
           | Err e \<Rightarrow> Some (Failed e, block, tr)
           | Panic p \<Rightarrow> Some (Crashed p, block, tr)))"

text \<open>An error reply that ends the request before any transfer.\<close>

definition reject ::
  "ending \<Rightarrow> uint16 \<Rightarrow> gostring \<Rightarrow> action list \<Rightarrow> (ending \<times> action list) option" where
  "reject e code msg tr =
     (case sendError code msg tr of
        Ok tr' \<Rightarrow> Some (e, tr')
      | Err x \<Rightarrow> Some (Failed x, tr)
      | Panic p \<Rightarrow> Some (Crashed p, tr))"

definition serveReadRequest ::
  "system \<Rightarrow> gostring \<Rightarrow> ReadRequest \<Rightarrow> net_event stream \<Rightarrow> (ending \<times> action list) option"
where
  "serveReadRequest sys BaseDir rrq evs =
     (if ReadRequest.Mode rrq \<noteq> ModeOctet \<and> ReadRequest.Mode rrq \<noteq> ModeNetascii
         \<and> ReadRequest.Mode rrq \<noteq> ModeMail
      then reject UnsupportedTransferMode ErrNotDefined (str ''Unsupported transfer mode'') []
      else
        let requestedPath = Join sys BaseDir (Clean sys (ReadRequest.Filename rrq));
            filename = Clean sys requestedPath
        in
          (case Rel sys BaseDir filename of
             None \<Rightarrow> reject AccessDenied ErrAccessViolation (str ''Access denied'') []
           | Some relPath \<Rightarrow>
               if HasPrefix relPath (str ''..'')
               then reject AccessDenied ErrAccessViolation (str ''Access denied'') []
               else
                 (case Open sys filename of
                    NotExist \<Rightarrow>
                      reject FileNotFound ErrFileNotFound (str ''File not found'')
                        [OpenFile filename]
                  | OpenError \<Rightarrow>
                      reject CannotOpen ErrAccessViolation (str ''Cannot open file'')
                        [OpenFile filename]
                  | Opened file \<Rightarrow>
                      if \<not> DialUDP sys then Some (DialFailed, [OpenFile filename])
                      else
                        map_option (\<lambda>(e, block, tr). (e, tr))
                          (serveLoop file 1 [OpenFile filename] evs))))"


section \<open>Notions used in the statements\<close>

text \<open>The two bytes of a 16-bit value on the wire, high byte first.\<close>

definition be16 :: "uint16 \<Rightarrow> byte list" where
  "be16 v = [ucast (drop_bit 8 v), ucast v]"

text \<open>
  A datagram read while the ack of \<open>block\<close> is awaited is discarded when the loop takes one
  of its two \<^verbatim>\<open>continue\<close> branches: the read did not return four bytes, or the buffer does
  not parse as an ack, or it parses as the ack of another block.
\<close>

definition discarded :: "uint16 \<Rightarrow> nat \<Rightarrow> byte list \<Rightarrow> bool" where
  "discarded block n ackBuf =
     (n \<noteq> 4
      \<or> (case ParseACK ackBuf of
            Ok parsedAck \<Rightarrow> AckPacket.Block parsedAck \<noteq> block
          | Err parseErr \<Rightarrow> True
          | Panic p \<Rightarrow> False))"

fun discardedEvent :: "uint16 \<Rightarrow> net_event \<Rightarrow> bool" where
  "discardedEvent block (Received n ackBuf) = discarded block n ackBuf"
| "discardedEvent block e = False"

text \<open>The data packets among the actions of a transfer, in the order they were written.\<close>

fun dataSent :: "action list \<Rightarrow> byte list list" where
  "dataSent [] = []"
| "dataSent (SendData p # tr) = p # dataSent tr"
| "dataSent (a # tr) = dataSent tr"

text \<open>
  A client that acknowledges every block at once: the ack of \<open>block\<close>, then of the next
  block, and so on.
\<close>

definition ackOf :: "uint16 \<Rightarrow> net_event" where
  "ackOf block = Received 4 (be16 ACK @ be16 block)"

definition promptAcks :: "uint16 \<Rightarrow> net_event stream" where
  "promptAcks block = smap ackOf (siterate (\<lambda>b. b + 1) block)"


text \<open>
  The actions that a pass of the send loop adds, and the shape of the actions when the loop
  is left by \<^verbatim>\<open>break\<close>: passes of the loop, then the pass in which the matching ack is read.
\<close>

fun passOf :: "byte list \<Rightarrow> action \<Rightarrow> bool" where
  "passOf pkt (SendData p) = (p = pkt)"
| "passOf pkt (Recv n b) = True"
| "passOf pkt a = False"

definition ackedTrace :: "uint16 \<Rightarrow> byte list \<Rightarrow> action list \<Rightarrow> action list \<Rightarrow> bool" where
  "ackedTrace block pkt tr tr' =
     (\<exists>mid buf. tr' = tr @ mid @ [SendData pkt, Recv 4 buf]
        \<and> ParseACK buf = Ok \<lparr>AckPacket.Block = block\<rparr> \<and> (\<forall>a\<in>set mid. passOf pkt a))"

text \<open>
  The data packets of a whole file read from \<open>block\<close> on: one for every full chunk of
  \<open>BlockSize\<close> bytes, then one for what is left, which is shorter and may be empty.
\<close>

definition dataBlocks :: "uint16 \<Rightarrow> byte list \<Rightarrow> byte list list" where
  "dataBlocks block content =
     map (\<lambda>i. be16 DATA @ be16 (block + of_nat i) @ take BlockSize (drop (BlockSize * i) content))
       [0..<length content div BlockSize + 1]"

text \<open>
  A requested name resolves outside the root when \<^verbatim>\<open>filepath.Rel\<close> finds no path from the
  root to the cleaned join of root and name, or finds one whose first segment (up to the
  first separator \<open>/\<close>) is the parent directory.
\<close>

definition firstSegment :: "gostring \<Rightarrow> gostring" where
  "firstSegment p = takeWhile (\<lambda>c. c \<noteq> of_char CHR ''/'') p"

definition resolvesOutside :: "system \<Rightarrow> gostring \<Rightarrow> gostring \<Rightarrow> bool" where
  "resolvesOutside sys BaseDir name =
     (case Rel sys BaseDir (Clean sys (Join sys BaseDir (Clean sys name))) of
        None \<Rightarrow> True
      | Some relPath \<Rightarrow> firstSegment relPath = str ''..'')"

text \<open>
  A system, for the examples, whose path functions do no normalisation at all: joining
  puts a separator between the two paths, cleaning changes nothing, and the relative path
  is what follows the root and a separator. No file exists in it.
\<close>

definition plainPaths :: system where
  "plainPaths =
     \<lparr>Join = (\<lambda>a b. a @ str ''/'' @ b),
      Clean = (\<lambda>p. p),
      Rel = (\<lambda>base target.
               if take (length base + 1) target = base @ str ''/''
               then Some (drop (length base + 1) target) else None),
      Open = (\<lambda>p. NotExist),
      DialUDP = True\<rparr>"

section \<open>The codec: wire layout of what the encoders build\<close>

lemma length_be16 [simp]: "length (be16 v) = 2"
  by (simp add: be16_def)

lemma be16_join: "(ucast (ucast (v::uint16) :: byte) :: uint16) OR push_bit 8 (ucast (ucast (drop_bit 8 v) :: byte)) = v"
  by (rule bit_word_eqI) (auto simp add: bit_simps)

lemma store_app:
  "length mid = 1 \<Longrightarrow> i = length pre \<Longrightarrow> store (pre @ mid @ post) i v = Ok (pre @ [v] @ post)"
  by (cases mid) (simp_all add: store_def)

lemma copy_into_app:
  "length mid = length src \<Longrightarrow> lo = length pre \<Longrightarrow>
   copy_into (pre @ mid @ post) lo src = Ok (pre @ src @ post)"
  by (simp add: copy_into_def Let_def)

lemma PutUint16_app:
  assumes "length mid = 2" "lo = length pre" "hi = lo + 2"
  shows "PutUint16 (pre @ mid @ post) lo hi v = Ok (pre @ be16 v @ post)"
proof -
  obtain x y where mid: "mid = [x, y]"
    using assms(1) by (cases mid; cases "tl mid") auto
  show ?thesis
    using assms(2,3) by (simp add: mid PutUint16_def be16_def list_update_append)
qed

lemma Uint16_app:
  "lo = length pre \<Longrightarrow> hi = lo + 2 \<Longrightarrow> Uint16 (pre @ be16 v @ post) lo hi = Ok v"
  by (simp add: Uint16_def be16_def nth_append be16_join)

lemma PutUint16_head:
  "length mid = 2 \<Longrightarrow> PutUint16 (mid @ post) 0 2 v = Ok (be16 v @ post)"
  using PutUint16_app[of mid 0 "[]" 2 post v] by (simp only: append_Nil list.size add_0)

lemma PutUint16_second:
  "length mid = 2 \<Longrightarrow> PutUint16 (be16 w @ mid @ post) 2 4 v = Ok (be16 w @ be16 v @ post)"
  by (rule PutUint16_app) simp_all

lemma PackACK_closed: "PackACK block = Ok (be16 ACK @ be16 block)"
proof -
  have m: "makeBytes 4 = replicate 2 0 @ replicate 2 0 @ []"
    by (simp add: makeBytes_def numeral_eq_Suc)
  have 1: "PutUint16 (replicate 2 0 @ replicate 2 0 @ []) 0 2 ACK = Ok (be16 ACK @ replicate 2 0 @ [])"
    by (rule PutUint16_head) simp
  have 2: "PutUint16 (be16 ACK @ replicate 2 0 @ []) 2 4 block = Ok (be16 ACK @ be16 block @ [])"
    by (rule PutUint16_second) simp
  have "PackACK block = Ok (be16 ACK @ be16 block @ [])"
    by (simp only: PackACK_def m 1 2 andThen.simps)
  then show ?thesis by (simp only: append_Nil2)
qed

lemma PackDATA_closed: "PackDATA block data = Ok (be16 DATA @ be16 block @ data)"
proof -
  let ?z = "replicate (length data) 0"
  have m: "makeBytes (4 + length data) = replicate 2 0 @ replicate 2 0 @ ?z @ []"
    by (simp add: makeBytes_def numeral_eq_Suc)
  have 1: "PutUint16 (replicate 2 0 @ replicate 2 0 @ ?z @ []) 0 2 DATA
           = Ok (be16 DATA @ replicate 2 0 @ ?z @ [])"
    by (rule PutUint16_head) simp
  have 2: "PutUint16 (be16 DATA @ replicate 2 0 @ ?z @ []) 2 4 block
           = Ok (be16 DATA @ be16 block @ ?z @ [])"
    by (rule PutUint16_second) simp
  have 3: "copy_into ((be16 DATA @ be16 block) @ ?z @ []) 4 data
           = Ok ((be16 DATA @ be16 block) @ data @ [])"
    by (rule copy_into_app) simp_all
  have "PackDATA block data = Ok (be16 DATA @ be16 block @ data @ [])"
    using 3 by (simp only: PackDATA_def m 1 2 andThen.simps append_assoc)
  then show ?thesis by (simp only: append_Nil2)
qed

lemma PackERROR_closed: "PackERROR code msg = Ok (be16 ERROR @ be16 code @ msg @ [0])"
proof -
  let ?z = "replicate (length msg) 0"
  let ?o = "replicate 1 (0::byte)"
  have m: "makeBytes (4 + length msg + 1) = replicate 2 0 @ replicate 2 0 @ ?z @ ?o @ []"
    by (simp add: makeBytes_def numeral_eq_Suc replicate_append_same)
  have 1: "PutUint16 (replicate 2 0 @ replicate 2 0 @ ?z @ ?o @ []) 0 2 ERROR
           = Ok (be16 ERROR @ replicate 2 0 @ ?z @ ?o @ [])"
    by (rule PutUint16_head) simp
  have 2: "PutUint16 (be16 ERROR @ replicate 2 0 @ ?z @ ?o @ []) 2 4 code
           = Ok (be16 ERROR @ be16 code @ ?z @ ?o @ [])"
    by (rule PutUint16_second) simp
  have 3: "copy_into ((be16 ERROR @ be16 code) @ ?z @ ?o @ []) 4 msg
           = Ok ((be16 ERROR @ be16 code) @ msg @ ?o @ [])"
    by (rule copy_into_app) simp_all
  have 4: "store ((be16 ERROR @ be16 code @ msg) @ ?o @ [])
             (length (be16 ERROR @ be16 code @ msg @ ?o @ []) - 1) 0
           = Ok ((be16 ERROR @ be16 code @ msg) @ [0] @ [])"
    by (rule store_app) simp_all
  have "PackERROR code msg = Ok (be16 ERROR @ be16 code @ msg @ [0] @ [])"
    using 3 4 by (simp only: PackERROR_def m 1 2 andThen.simps append_assoc)
  then show ?thesis by (simp only: append_Nil2)
qed

lemma packRQ_closed:
  assumes "isValidMode mode"
  shows "packRQ op fn mode = Ok (be16 op @ fn @ [0] @ mode @ [0])"
proof -
  let ?zf = "replicate (length fn) 0" and ?zm = "replicate (length mode) 0"
  let ?o = "replicate 1 (0::byte)"
  have m: "makeBytes (2 + length fn + 1 + length mode + 1) = replicate 2 0 @ ?zf @ ?o @ ?zm @ ?o @ []"
    by (simp only: makeBytes_def replicate_add append_assoc append_Nil2)
  have 0: "PutUint16 (replicate 2 0 @ ?zf @ ?o @ ?zm @ ?o @ []) 0 2 op
           = Ok (be16 op @ ?zf @ ?o @ ?zm @ ?o @ [])"
    by (rule PutUint16_head) simp
  have 1: "copy_into (be16 op @ ?zf @ ?o @ ?zm @ ?o @ []) 2 fn
           = Ok (be16 op @ fn @ ?o @ ?zm @ ?o @ [])"
    by (rule copy_into_app) simp_all
  have 2: "store ((be16 op @ fn) @ ?o @ ?zm @ ?o @ []) (2 + length fn) 0
           = Ok ((be16 op @ fn) @ [0] @ ?zm @ ?o @ [])"
    by (rule store_app) simp_all
  have 3: "copy_into ((be16 op @ fn @ [0]) @ ?zm @ ?o @ []) (2 + length fn + 1) mode
           = Ok ((be16 op @ fn @ [0]) @ mode @ ?o @ [])"
    by (rule copy_into_app) simp_all
  have 4: "store ((be16 op @ fn @ [0] @ mode) @ ?o @ []) (2 + length fn + 1 + length mode) 0
           = Ok ((be16 op @ fn @ [0] @ mode) @ [0] @ [])"
    by (rule store_app) simp_all
  have "packRQ op fn mode = Ok (be16 op @ fn @ [0] @ mode @ [0] @ [])"
    using assms 2 3 4
    by (simp only: packRQ_def m 0 1 andThen.simps not_True_eq_False if_False append_assoc)
  then show ?thesis by (simp only: append_Nil2)
qed

lemma scanNul_none: "0 \<notin> set xs \<Longrightarrow> scanNul xs i = - 1"
  by (induction xs arbitrary: i) auto

lemma scanNul_found:
  "0 \<in> set xs \<Longrightarrow> scanNul xs i = i + int (length (takeWhile (\<lambda>b. b \<noteq> 0) xs))"
  by (induction xs arbitrary: i) (auto)

lemma takeWhile_shorter:
  "0 \<in> set xs \<Longrightarrow> length (takeWhile (\<lambda>b. b \<noteq> (0::byte)) xs) < length xs"
  by (induction xs) auto

lemma unpackRQ_closed:
  "unpackRQ packet =
     (if length packet < 4 then Err ErrPacketTooShort
      else let data = drop 2 packet in
        if 0 \<notin> set data then Err ErrMissingNullTerm
        else let filename = takeWhile (\<lambda>b. b \<noteq> 0) data;
                 modeData = drop (length filename + 1) data in
          if modeData = [] then Err ErrInvalidPacket
          else if 0 \<notin> set modeData then Err ErrMissingNullTerm
          else Ok (filename, takeWhile (\<lambda>b. b \<noteq> 0) modeData))"
proof (cases "length packet < 4")
  case True
  then show ?thesis by (simp add: unpackRQ_def)
next
  case long: False
  define data where "data = drop 2 packet"
  have sl: "slice packet 2 (length packet) = Ok data"
    using long by (simp add: slice_def data_def)
  show ?thesis
  proof (cases "0 \<in> set data")
    case False
    then show ?thesis
      using long sl by (simp add: unpackRQ_def scanNul_none data_def[symmetric])
  next
    case nul: True
    define fn where "fn = takeWhile (\<lambda>b. b \<noteq> 0) data"
    define md where "md = drop (Suc (length fn)) data"
    have fe: "scanNul data 0 = int (length fn)"
      using nul by (simp add: scanNul_found fn_def)
    have fl: "length fn < length data"
      using nul unfolding fn_def by (rule takeWhile_shorter)
    have s1: "slice data 0 (length fn) = Ok fn"
      using fl by (simp add: slice_def fn_def takeWhile_eq_take[symmetric])
    have s2: "slice data (Suc (length fn)) (length data) = Ok md"
      using fl by (simp add: slice_def md_def)
    have e: "(int (length data) \<le> int (length fn) + 1) = (md = [])"
      using fl by (auto simp add: md_def)
    show ?thesis
    proof (cases "md = [] \<or> 0 \<notin> set md")
      case True
      then show ?thesis
        using long sl nul fe s1 s2 e
        by (auto simp add: unpackRQ_def Let_def data_def[symmetric] fn_def[symmetric] md_def[symmetric] nat_add_distrib scanNul_none)
    next
      case False
      then have nm: "0 \<in> set md" and ne: "md \<noteq> []" by auto
      have me: "scanNul md 0 = int (length (takeWhile (\<lambda>b. b \<noteq> 0) md))"
        using nm by (simp add: scanNul_found)
      have ml: "length (takeWhile (\<lambda>b. b \<noteq> 0) md) < length md"
        using nm by (rule takeWhile_shorter)
      have s3: "slice md 0 (length (takeWhile (\<lambda>b. b \<noteq> 0) md)) = Ok (takeWhile (\<lambda>b. b \<noteq> 0) md)"
        using ml by (simp add: slice_def takeWhile_eq_take[symmetric])
      show ?thesis
        using long sl nul fe s1 s2 e nm ne me s3
        by (simp add: unpackRQ_def Let_def data_def[symmetric] fn_def[symmetric] md_def[symmetric] nat_add_distrib)
    qed
  qed
qed


lemma be16_split: "be16 (ucast b OR push_bit 8 (ucast a)) = [a, b]"
  unfolding be16_def
  by (simp, intro conjI; rule bit_word_eqI) (auto simp add: bit_simps dest: bit_imp_le_length)

lemma be16_inj: "be16 v = be16 w \<Longrightarrow> v = w"
  by (metis Uint16_app[of 0 "[]" 2 _ "[]"] list.size(3) add_0 result.inject(1))

lemma Uint16_head: "Uint16 (be16 v @ post) 0 2 = Ok v"
  using Uint16_app[of 0 "[]" 2 v post] by simp

lemma Uint16_second: "Uint16 (be16 w @ be16 v @ post) 2 4 = Ok v"
  by (rule Uint16_app) simp_all

lemma opcodeDiffers_closed:
  "opcodeDiffers data op = Ok (\<not> (2 \<le> length data \<and> take 2 data = be16 op))"
proof (cases "2 \<le> length data")
  case False
  then show ?thesis by (simp add: opcodeDiffers_def)
next
  case True
  then obtain a b rest where d: "data = a # b # rest"
    by (cases data; cases "tl data") auto
  have u: "Uint16 data 0 2 = Ok (ucast b OR push_bit 8 (ucast a))"
    by (simp add: d Uint16_def)
  have t: "take 2 data = be16 (ucast b OR push_bit 8 (ucast a))"
    by (simp add: d be16_split)
  show ?thesis
    using True be16_inj[of "ucast b OR push_bit 8 (ucast a)" op]
    by (auto simp add: opcodeDiffers_def u t)
qed

lemma valid_mode_no_nul: "isValidMode mode \<Longrightarrow> 0 \<notin> set mode"
  by (auto simp add: isValidMode_def ModeNetascii_def ModeOctet_def ModeMail_def str_def)

lemma takeWhile_nul: "0 \<notin> set xs \<Longrightarrow> takeWhile (\<lambda>b. b \<noteq> (0::byte)) (xs @ 0 # ys) = xs"
  by (induction xs) auto

lemma unpackRQ_wire:
  assumes "length hd2 = 2" "0 \<notin> set fn" "0 \<notin> set mode"
  shows "unpackRQ (hd2 @ fn @ 0 # mode @ 0 # rest) = Ok (fn, mode)"
  using assms by (simp add: unpackRQ_closed Let_def takeWhile_nul)

lemma unpackRQ_Ok_iff:
  "unpackRQ packet = Ok (fn, mode) \<longleftrightarrow>
     (\<exists>rest. packet = take 2 packet @ fn @ [0] @ mode @ [0] @ rest \<and> 2 \<le> length packet
        \<and> 0 \<notin> set fn \<and> 0 \<notin> set mode)"
proof
  assume "\<exists>rest. packet = take 2 packet @ fn @ [0] @ mode @ [0] @ rest \<and> 2 \<le> length packet
        \<and> 0 \<notin> set fn \<and> 0 \<notin> set mode"
  then obtain rest where p: "packet = take 2 packet @ fn @ [0] @ mode @ [0] @ rest"
    and l: "2 \<le> length packet" and n: "0 \<notin> set fn" "0 \<notin> set mode"
    by blast
  have "unpackRQ (take 2 packet @ fn @ [0] @ mode @ [0] @ rest) = Ok (fn, mode)"
    using l n unpackRQ_wire[of "take 2 packet" fn mode rest] by simp
  then show "unpackRQ packet = Ok (fn, mode)"
    using p by simp
next
  assume ok: "unpackRQ packet = Ok (fn, mode)"
  define data where "data = drop 2 packet"
  define md where "md = drop (length (takeWhile (\<lambda>b. b \<noteq> 0) data) + 1) data"
  from ok have len: "\<not> length packet < 4" and nul: "0 \<in> set data"
    and fn: "fn = takeWhile (\<lambda>b. b \<noteq> 0) data"
    and nm: "0 \<in> set md" and mode: "mode = takeWhile (\<lambda>b. b \<noteq> 0) md"
    by (auto simp add: unpackRQ_closed Let_def data_def md_def split: if_splits)
  have d: "data = fn @ 0 # md"
    using nul unfolding fn md_def
    by (induction data) auto
  have m: "md = mode @ 0 # drop (Suc (length mode)) md"
    using nm unfolding mode
    by (induction md) auto
  have "packet = take 2 packet @ data"
    by (simp add: data_def)
  then have "packet = take 2 packet @ fn @ [0] @ mode @ [0] @ drop (Suc (length mode)) md"
    using d m by simp
  moreover have "0 \<notin> set fn" "0 \<notin> set mode"
    unfolding fn mode by (auto dest: set_takeWhileD)
  ultimately show "\<exists>rest. packet = take 2 packet @ fn @ [0] @ mode @ [0] @ rest \<and> 2 \<le> length packet
        \<and> 0 \<notin> set fn \<and> 0 \<notin> set mode"
    using len by auto
qed


section \<open>The codec: what the decoders accept\<close>

lemma ParseRRQ_closed:
  "ParseRRQ data =
     (if 2 \<le> length data \<and> take 2 data = be16 RRQ
      then andThen (unpackRQ data) (\<lambda>(filename, mode).
             Ok \<lparr>ReadRequest.Filename = filename, Mode = mode\<rparr>)
      else Err ErrInvalidOpcode)"
  by (simp add: ParseRRQ_def opcodeDiffers_closed)

lemma ParseWRQ_closed:
  "ParseWRQ data =
     (if 2 \<le> length data \<and> take 2 data = be16 WRQ
      then andThen (unpackRQ data) (\<lambda>(filename, mode).
             Ok \<lparr>WriteRequest.Filename = filename, Mode = mode\<rparr>)
      else Err ErrInvalidOpcode)"
  by (simp add: ParseWRQ_def opcodeDiffers_closed)

lemma ParseRRQ_wire:
  "0 \<notin> set fn \<Longrightarrow> 0 \<notin> set mode \<Longrightarrow>
   ParseRRQ (be16 RRQ @ fn @ [0] @ mode @ [0] @ rest) = Ok \<lparr>ReadRequest.Filename = fn, Mode = mode\<rparr>"
  by (simp add: ParseRRQ_closed unpackRQ_wire)

lemma ParseWRQ_wire:
  "0 \<notin> set fn \<Longrightarrow> 0 \<notin> set mode \<Longrightarrow>
   ParseWRQ (be16 WRQ @ fn @ [0] @ mode @ [0] @ rest) = Ok \<lparr>WriteRequest.Filename = fn, Mode = mode\<rparr>"
  by (simp add: ParseWRQ_closed unpackRQ_wire)

lemma ParseDATA_wire:
  "ParseDATA (be16 DATA @ be16 block @ payload) = Ok \<lparr>DataPacket.Block = block, Data = payload\<rparr>"
  by (simp add: ParseDATA_def Uint16_head Uint16_second slice_def)

lemma ParseACK_wire:
  "ParseACK (be16 ACK @ be16 block @ rest) = Ok \<lparr>AckPacket.Block = block\<rparr>"
  by (simp add: ParseACK_def Uint16_head Uint16_second)

lemma ParseERROR_wire:
  "ParseERROR (be16 ERROR @ be16 code @ msg @ [0]) = Ok \<lparr>Code = code, Message = msg\<rparr>"
  by (simp add: ParseERROR_def Uint16_head Uint16_second slice_def nth_append)

subsection \<open>Round trip\<close>

text \<open>
  Claim C1. Decoding the bytes that encoding produces gives the message back, for each of
  the five kinds: for a read or a write request whose mode is one of the three literals and
  whose filename holds no NUL byte, and for every data, ack and error packet (every block
  number and error code, every payload and message; the 16-bit fields cover 0..65535).
\<close>

theorem codec_round_trip:
  "(isValidMode (ReadRequest.Mode rq) \<and> 0 \<notin> set (ReadRequest.Filename rq)
      \<longrightarrow> andThen (ReadRequest_Serialize rq) ParseRRQ = Ok rq)
   \<and> (isValidMode (WriteRequest.Mode wr) \<and> 0 \<notin> set (WriteRequest.Filename wr)
      \<longrightarrow> andThen (WriteRequest_Serialize wr) ParseWRQ = Ok wr)
   \<and> andThen (DataPacket_Serialize d) ParseDATA = Ok d
   \<and> andThen (AckPacket_Serialize a) ParseACK = Ok a
   \<and> andThen (ErrorPacket_Serialize e) ParseERROR = Ok e"
proof (intro conjI impI)
  assume "isValidMode (ReadRequest.Mode rq) \<and> 0 \<notin> set (ReadRequest.Filename rq)"
  then show "andThen (ReadRequest_Serialize rq) ParseRRQ = Ok rq"
    using ParseRRQ_wire[of "ReadRequest.Filename rq" "ReadRequest.Mode rq" "[]"]
    by (simp add: ReadRequest_Serialize_def packRQ_closed valid_mode_no_nul)
next
  assume "isValidMode (WriteRequest.Mode wr) \<and> 0 \<notin> set (WriteRequest.Filename wr)"
  then show "andThen (WriteRequest_Serialize wr) ParseWRQ = Ok wr"
    using ParseWRQ_wire[of "WriteRequest.Filename wr" "WriteRequest.Mode wr" "[]"]
    by (simp add: WriteRequest_Serialize_def packRQ_closed valid_mode_no_nul)
next
  show "andThen (DataPacket_Serialize d) ParseDATA = Ok d"
    by (simp add: DataPacket_Serialize_def PackDATA_closed ParseDATA_wire)
next
  show "andThen (AckPacket_Serialize a) ParseACK = Ok a"
    using ParseACK_wire[of "AckPacket.Block a" "[]"]
    by (simp add: AckPacket_Serialize_def PackACK_closed)
next
  show "andThen (ErrorPacket_Serialize e) ParseERROR = Ok e"
    by (simp add: ErrorPacket_Serialize_def PackERROR_closed ParseERROR_wire)
qed

theorem codec_round_trip_witness:
  "isValidMode (str ''octet'') \<and> 0 \<notin> set (str ''test.txt'')
   \<and> ReadRequest_Serialize \<lparr>ReadRequest.Filename = str ''test.txt'', Mode = str ''octet''\<rparr>
       = Ok ([0, 1] @ str ''test.txt'' @ [0] @ str ''octet'' @ [0])
   \<and> ParseRRQ ([0, 1] @ str ''test.txt'' @ [0] @ str ''octet'' @ [0])
       = Ok \<lparr>ReadRequest.Filename = str ''test.txt'', Mode = str ''octet''\<rparr>
   \<and> WriteRequest_Serialize \<lparr>WriteRequest.Filename = str ''test.txt'', Mode = str ''octet''\<rparr>
       = Ok ([0, 2] @ str ''test.txt'' @ [0] @ str ''octet'' @ [0])
   \<and> ParseWRQ ([0, 2] @ str ''test.txt'' @ [0] @ str ''octet'' @ [0])
       = Ok \<lparr>WriteRequest.Filename = str ''test.txt'', Mode = str ''octet''\<rparr>"
proof -
  let ?rq = "\<lparr>ReadRequest.Filename = str ''test.txt'', Mode = str ''octet''\<rparr>"
  let ?wr = "\<lparr>WriteRequest.Filename = str ''test.txt'', Mode = str ''octet''\<rparr>"
  have v: "isValidMode (str ''octet'')"
    by (simp add: isValidMode_def ModeOctet_def)
  have n: "0 \<notin> set (str ''test.txt'')"
    by (simp add: str_def)
  have s: "ReadRequest_Serialize ?rq = Ok ([0, 1] @ str ''test.txt'' @ [0] @ str ''octet'' @ [0])"
    using v by (simp add: ReadRequest_Serialize_def packRQ_closed be16_def RRQ_def)
  have s': "WriteRequest_Serialize ?wr = Ok ([0, 2] @ str ''test.txt'' @ [0] @ str ''octet'' @ [0])"
    using v by (simp add: WriteRequest_Serialize_def packRQ_closed be16_def WRQ_def)
  from codec_round_trip[of ?rq ?wr] v n s s' show ?thesis
    by simp
qed


subsection \<open>Short buffers and trailing bytes\<close>

lemma be16_RRQ: "be16 RRQ = [0, 1]"
  by (simp add: be16_def RRQ_def)
lemma be16_WRQ: "be16 WRQ = [0, 2]"
  by (simp add: be16_def WRQ_def)

lemma unpackRQ_short: "length b < 4 \<Longrightarrow> unpackRQ b = Err ErrPacketTooShort"
  by (simp add: unpackRQ_def)

text \<open>
  Claim C7, as the code has it. A buffer of fewer than four bytes never decodes as data or
  ack, and one of fewer than five bytes never decodes as an error packet: the decoder
  answers \<open>ErrPacketTooShort\<close> whatever the bytes are. A read or write request checks
  the opcode first: a buffer of fewer than four bytes gives \<open>ErrPacketTooShort\<close> only
  when it has two bytes at least and they are the expected opcode, and
  \<open>ErrInvalidOpcode\<close> when it is shorter than two bytes or starts with other bytes.
\<close>

theorem short_buffer_rejection:
  "(length b < 4 \<longrightarrow> ParseDATA b = Err ErrPacketTooShort \<and> ParseACK b = Err ErrPacketTooShort)
   \<and> (length b < 5 \<longrightarrow> ParseERROR b = Err ErrPacketTooShort)
   \<and> (length b < 4 \<longrightarrow>
        ParseRRQ b = (if 2 \<le> length b \<and> take 2 b = [0, 1] then Err ErrPacketTooShort
                      else Err ErrInvalidOpcode))
   \<and> (length b < 4 \<longrightarrow>
        ParseWRQ b = (if 2 \<le> length b \<and> take 2 b = [0, 2] then Err ErrPacketTooShort
                      else Err ErrInvalidOpcode))"
  by (simp add: ParseDATA_def ParseACK_def ParseERROR_def ParseRRQ_closed ParseWRQ_closed
      unpackRQ_short be16_RRQ be16_WRQ)

theorem short_buffer_rejection_witness:
  "length [0, 1 :: byte] < 4 \<and> length [0, 1 :: byte] < 5
   \<and> ParseDATA [0, 1] = Err ErrPacketTooShort \<and> ParseACK [0, 1] = Err ErrPacketTooShort
   \<and> ParseERROR [0, 1] = Err ErrPacketTooShort \<and> ParseRRQ [0, 1] = Err ErrPacketTooShort
   \<and> ParseWRQ [0, 1] = Err ErrInvalidOpcode"
  using short_buffer_rejection[of "[0, 1]"] by simp

text \<open>
  Claim C7 as stated fails for requests: the empty buffer and the two-byte buffer that
  holds the opcode of a write request are rejected by \<open>ParseRRQ\<close> with
  \<open>ErrInvalidOpcode\<close>, not with \<open>ErrPacketTooShort\<close>.
\<close>

theorem request_too_short_counterexample:
  "ParseRRQ [] = Err ErrInvalidOpcode \<and> ParseRRQ [0, 2] = Err ErrInvalidOpcode
   \<and> ParseRRQ [] \<noteq> Err ErrPacketTooShort \<and> ParseRRQ [0, 2] \<noteq> Err ErrPacketTooShort"
  by (simp add: ParseRRQ_def opcodeDiffers_def Uint16_def RRQ_def)

text \<open>
  Claim C8 as stated fails: a read request followed by five more bytes after the NUL of
  the mode is decoded, and the extra bytes are dropped.
\<close>

theorem request_trailing_bytes_counterexample:
  "ParseRRQ ([0, 1] @ str ''f'' @ [0] @ str ''octet'' @ [0] @ str ''extra'')
     = Ok \<lparr>ReadRequest.Filename = str ''f'', Mode = str ''octet''\<rparr>"
  by (simp add: ParseRRQ_def opcodeDiffers_def Uint16_def RRQ_def unpackRQ_def slice_def str_def)

text \<open>
  Claim C8, as the code has it. A buffer decodes as a read (write) request exactly when it
  is the opcode, a filename without NUL, a NUL, a mode without NUL, a NUL, and then any
  bytes at all; the decoded fields are that filename and that mode.
\<close>

theorem request_accepted_iff:
  "(ParseRRQ data = Ok rq \<longleftrightarrow>
      (\<exists>rest. data = [0, 1] @ ReadRequest.Filename rq @ [0] @ ReadRequest.Mode rq @ [0] @ rest
         \<and> 0 \<notin> set (ReadRequest.Filename rq) \<and> 0 \<notin> set (ReadRequest.Mode rq)))
   \<and> (ParseWRQ data = Ok wr \<longleftrightarrow>
      (\<exists>rest. data = [0, 2] @ WriteRequest.Filename wr @ [0] @ WriteRequest.Mode wr @ [0] @ rest
         \<and> 0 \<notin> set (WriteRequest.Filename wr) \<and> 0 \<notin> set (WriteRequest.Mode wr)))"
proof (intro conjI)
  have r: "ParseRRQ data = Ok rq \<longleftrightarrow>
        2 \<le> length data \<and> take 2 data = [0, 1]
        \<and> unpackRQ data = Ok (ReadRequest.Filename rq, ReadRequest.Mode rq)"
    by (cases "unpackRQ data") (auto simp add: ParseRRQ_closed be16_RRQ)
  show "ParseRRQ data = Ok rq \<longleftrightarrow>
      (\<exists>rest. data = [0, 1] @ ReadRequest.Filename rq @ [0] @ ReadRequest.Mode rq @ [0] @ rest
         \<and> 0 \<notin> set (ReadRequest.Filename rq) \<and> 0 \<notin> set (ReadRequest.Mode rq))"
    unfolding r unpackRQ_Ok_iff by auto
  have w: "ParseWRQ data = Ok wr \<longleftrightarrow>
        2 \<le> length data \<and> take 2 data = [0, 2]
        \<and> unpackRQ data = Ok (WriteRequest.Filename wr, WriteRequest.Mode wr)"
    by (cases "unpackRQ data") (auto simp add: ParseWRQ_closed be16_WRQ)
  show "ParseWRQ data = Ok wr \<longleftrightarrow>
      (\<exists>rest. data = [0, 2] @ WriteRequest.Filename wr @ [0] @ WriteRequest.Mode wr @ [0] @ rest
         \<and> 0 \<notin> set (WriteRequest.Filename wr) \<and> 0 \<notin> set (WriteRequest.Mode wr))"
    unfolding w unpackRQ_Ok_iff by auto
qed

theorem request_accepted_iff_witness:
  "ParseRRQ ([0, 1] @ str ''a'' @ [0] @ str ''mail'' @ [0] @ [7, 0, 7])
     = Ok \<lparr>ReadRequest.Filename = str ''a'', Mode = str ''mail''\<rparr>
   \<and> ParseWRQ ([0, 2] @ str ''a'' @ [0] @ str ''mail'' @ [0] @ [])
     = Ok \<lparr>WriteRequest.Filename = str ''a'', Mode = str ''mail''\<rparr>
   \<and> ParseRRQ ([0, 1] @ str ''a'' @ [0] @ str ''mail'')
     \<noteq> Ok \<lparr>ReadRequest.Filename = str ''a'', Mode = str ''mail''\<rparr>"
proof -
  have n: "0 \<notin> set (str ''a'')" "0 \<notin> set (str ''mail'')"
    by (simp_all add: str_def)
  have 1: "ParseRRQ ([0, 1] @ str ''a'' @ [0] @ str ''mail'' @ [0] @ [7, 0, 7])
     = Ok \<lparr>ReadRequest.Filename = str ''a'', Mode = str ''mail''\<rparr>"
    using n request_accepted_iff[of "[0, 1] @ str ''a'' @ [0] @ str ''mail'' @ [0] @ [7, 0, 7]"
        "\<lparr>ReadRequest.Filename = str ''a'', Mode = str ''mail''\<rparr>"]
    by simp
  have 2: "ParseWRQ ([0, 2] @ str ''a'' @ [0] @ str ''mail'' @ [0] @ [])
     = Ok \<lparr>WriteRequest.Filename = str ''a'', Mode = str ''mail''\<rparr>"
    using n request_accepted_iff[of "[0, 2] @ str ''a'' @ [0] @ str ''mail'' @ [0] @ []" _
        "\<lparr>WriteRequest.Filename = str ''a'', Mode = str ''mail''\<rparr>"]
    by simp
  have 3: "ParseRRQ ([0, 1] @ str ''a'' @ [0] @ str ''mail'')
     \<noteq> Ok \<lparr>ReadRequest.Filename = str ''a'', Mode = str ''mail''\<rparr>"
    using request_accepted_iff[of "[0, 1] @ str ''a'' @ [0] @ str ''mail''"
        "\<lparr>ReadRequest.Filename = str ''a'', Mode = str ''mail''\<rparr>"]
    by (simp add: str_def)
  show ?thesis using 1 2 3 by blast
qed

subsection \<open>The encoders never fail, but for the mode\<close>

text \<open>
  Claim C9. The encoders of data, ack and error packets return bytes for every argument
  (no index or slice of theirs is out of range). \<open>packRQ\<close> returns bytes when the mode
  is one of \<open>netascii\<close>, \<open>octet\<close>, \<open>mail\<close>, and panics, without returning an error
  value, exactly when it is not.
\<close>

theorem encode_totality:
  "(\<exists>p. PackDATA block data = Ok p) \<and> (\<exists>p. PackACK block = Ok p)
   \<and> (\<exists>p. PackERROR code msg = Ok p)
   \<and> (mode \<in> {str ''netascii'', str ''octet'', str ''mail''}
        \<longrightarrow> (\<exists>p. packRQ opcode filename mode = Ok p))
   \<and> (mode \<notin> {str ''netascii'', str ''octet'', str ''mail''}
        \<longrightarrow> packRQ opcode filename mode = Panic (UnsupportedMode mode))"
proof -
  have v: "isValidMode mode \<longleftrightarrow> mode \<in> {str ''netascii'', str ''octet'', str ''mail''}"
    by (auto simp add: isValidMode_def ModeNetascii_def ModeOctet_def ModeMail_def)
  have ok: "isValidMode mode \<longrightarrow> (\<exists>p. packRQ opcode filename mode = Ok p)"
    by (simp add: packRQ_closed)
  have bad: "\<not> isValidMode mode \<longrightarrow> packRQ opcode filename mode = Panic (UnsupportedMode mode)"
    by (simp add: packRQ_def)
  show ?thesis
    using ok bad unfolding v
    by (simp add: PackDATA_closed PackACK_closed PackERROR_closed)
qed

theorem encode_totality_witness:
  "str ''octet'' \<in> {str ''netascii'', str ''octet'', str ''mail''}
   \<and> (\<exists>p. packRQ RRQ (str ''file'') (str ''octet'') = Ok p)
   \<and> str ''binary'' \<notin> {str ''netascii'', str ''octet'', str ''mail''}
   \<and> packRQ RRQ (str ''file'') (str ''binary'') = Panic (UnsupportedMode (str ''binary''))"
proof -
  have 1: "str ''octet'' \<in> {str ''netascii'', str ''octet'', str ''mail''}"
    by simp
  have 2: "str ''binary'' \<notin> {str ''netascii'', str ''octet'', str ''mail''}"
    by (simp add: str_def)
  show ?thesis
    using 1 2 encode_totality[where mode = "str ''octet''" and opcode = RRQ and filename = "str ''file''"]
      encode_totality[where mode = "str ''binary''" and opcode = RRQ and filename = "str ''file''"]
    by blast
qed



section \<open>The send loop\<close>

lemma passOf_iff: "passOf pkt a \<longleftrightarrow> a = SendData pkt \<or> (\<exists>n b. a = Recv n b)"
  by (cases a) auto

lemma discarded_iff:
  "discarded block n ackBuf \<longleftrightarrow>
     n \<noteq> 4 \<or> (\<exists>e. ParseACK ackBuf = Err e)
     \<or> (\<exists>a. ParseACK ackBuf = Ok a \<and> AckPacket.Block a \<noteq> block)"
  by (cases "ParseACK ackBuf") (simp_all add: discarded_def)

lemma ParseACK_no_panic: "ParseACK b \<noteq> Panic p"
  by (auto simp add: ParseACK_def Uint16_def split: if_splits)

lemma sendLoop_exhausted:
  "\<not> retries < MaxRetries \<Longrightarrow> sendLoop block pkt retries tr evs = Some (Exited retries, tr, evs)"
  by (subst sendLoop.simps) simp

lemma sendLoop_timeout:
  "retries < MaxRetries \<Longrightarrow>
   sendLoop block pkt retries tr (ReadTimeout ## evs)
     = sendLoop block pkt (retries + 1) (tr @ [SendData pkt]) evs"
  by (subst sendLoop.simps) simp

lemma sendLoop_write_fails:
  "retries < MaxRetries \<Longrightarrow>
   sendLoop block pkt retries tr (WriteFails ## evs) = Some (Returned WriteError, tr, evs)"
  by (subst sendLoop.simps) simp

lemma sendLoop_read_fails:
  "retries < MaxRetries \<Longrightarrow>
   sendLoop block pkt retries tr (ReadFails ## evs)
     = Some (Returned ReadError, tr @ [SendData pkt], evs)"
  by (subst sendLoop.simps) simp

lemma sendLoop_discard:
  "retries < MaxRetries \<Longrightarrow> discarded block n ackBuf \<Longrightarrow>
   sendLoop block pkt retries tr (Received n ackBuf ## evs)
     = sendLoop block pkt retries (tr @ [SendData pkt, Recv n ackBuf]) evs"
  by (subst sendLoop.simps) (auto simp add: discarded_iff)

lemma sendLoop_match:
  "retries < MaxRetries \<Longrightarrow> \<not> discarded block n ackBuf \<Longrightarrow>
   sendLoop block pkt retries tr (Received n ackBuf ## evs)
     = Some (Exited retries, tr @ [SendData pkt, Recv n ackBuf], evs)"
  using ParseACK_no_panic[of ackBuf]
  by (subst sendLoop.simps) (auto simp add: discarded_iff split: result.splits)

lemma not_discarded_iff:
  "\<not> discarded block n ackBuf \<longleftrightarrow> n = 4 \<and> ParseACK ackBuf = Ok \<lparr>AckPacket.Block = block\<rparr>"
  using ParseACK_no_panic[of ackBuf]
  by (cases "ParseACK ackBuf") (auto simp add: discarded_iff)

lemma sendLoop_gives_up:
  assumes "\<forall>e\<in>set pre. e = ReadTimeout \<or> discardedEvent block e"
      and "MaxRetries \<le> retries + length (filter (\<lambda>e. e = ReadTimeout) pre)"
      and "retries \<le> MaxRetries"
  shows "\<exists>tr' evs'. sendLoop block pkt retries tr (pre @- rest)
            = Some (Exited MaxRetries, tr @ tr', evs') \<and> (\<forall>a\<in>set tr'. passOf pkt a)"
  using assms
proof (induction pre arbitrary: retries tr)
  case Nil
  then have "retries = MaxRetries" by simp
  then show ?case by (simp add: sendLoop_exhausted)
next
  case (Cons e pre)
  show ?case
  proof (cases "retries < MaxRetries")
    case False
    with Cons.prems have "retries = MaxRetries" by simp
    then show ?thesis by (simp add: sendLoop_exhausted)
  next
    case True
    from Cons.prems(1) consider "e = ReadTimeout" | "discardedEvent block e" by auto
    then show ?thesis
    proof cases
      case 1
      obtain tr' evs' where
        "sendLoop block pkt (retries + 1) (tr @ [SendData pkt]) (pre @- rest)
           = Some (Exited MaxRetries, (tr @ [SendData pkt]) @ tr', evs')"
        and "\<forall>a\<in>set tr'. passOf pkt a"
        using Cons.IH[of "retries + 1" "tr @ [SendData pkt]"] Cons.prems True 1 by auto
      then show ?thesis
        using True 1 by (auto simp add: sendLoop_timeout passOf_iff intro!: exI[of _ "SendData pkt # tr'"])
    next
      case 2
      then obtain n b where e: "e = Received n b" and d: "discarded block n b"
        by (cases e) auto
      have "e \<noteq> ReadTimeout" using e by simp
      then obtain tr' evs' where
        "sendLoop block pkt retries (tr @ [SendData pkt, Recv n b]) (pre @- rest)
           = Some (Exited MaxRetries, (tr @ [SendData pkt, Recv n b]) @ tr', evs')"
        and "\<forall>a\<in>set tr'. passOf pkt a"
        using Cons.IH[of retries "tr @ [SendData pkt, Recv n b]"] Cons.prems by auto
      then show ?thesis
        using True e d
        by (auto simp add: sendLoop_discard passOf_iff intro!: exI[of _ "SendData pkt # Recv n b # tr'"])
    qed
  qed
qed

lemma ackedTrace_now:
  "ParseACK buf = Ok \<lparr>AckPacket.Block = block\<rparr> \<Longrightarrow>
   ackedTrace block pkt tr (tr @ [SendData pkt, Recv 4 buf])"
  unfolding ackedTrace_def by (intro exI[of _ "[]"] exI[of _ buf]) simp

lemma ackedTrace_later:
  assumes "ackedTrace block pkt (tr @ tr0) tr'" "\<forall>a\<in>set tr0. passOf pkt a"
  shows "ackedTrace block pkt tr tr'"
proof -
  from assms(1) obtain mid buf where
    "tr' = (tr @ tr0) @ mid @ [SendData pkt, Recv 4 buf]"
    "ParseACK buf = Ok \<lparr>AckPacket.Block = block\<rparr>" "\<forall>a\<in>set mid. passOf pkt a"
    unfolding ackedTrace_def by blast
  then show ?thesis
    unfolding ackedTrace_def using assms(2)
    by (intro exI[of _ "tr0 @ mid"] exI[of _ buf]) auto
qed

lemma sendLoop_acked_aux:
  assumes "sendLoop block pkt retries tr evs = Some y"
  shows "\<forall>r tr' evs'. y = (Exited r, tr', evs') \<and> r < MaxRetries \<longrightarrow> ackedTrace block pkt tr tr'"
proof (rule sendLoop.raw_induct[where P = "\<lambda>block pkt retries tr evs y.
          \<forall>r tr' evs'. y = (Exited r, tr', evs') \<and> r < MaxRetries \<longrightarrow> ackedTrace block pkt tr tr'",
        OF _ assms], goal_cases)
  case (1 f block pkt retries tr evs y)
  note IH = 1(1) and eq = 1(2)
  have step: "\<forall>r tr' evs'. y = (Exited r, tr', evs') \<and> r < MaxRetries \<longrightarrow> ackedTrace block pkt tr tr'"
    if "f block pkt r0 (tr @ tr0) (stl evs) = Some y" "\<forall>a\<in>set tr0. passOf pkt a" for tr0 r0
    using IH[OF that(1)] that(2) by (blast intro: ackedTrace_later)
  show ?case
  proof (cases "retries < MaxRetries")
    case False
    with eq show ?thesis by auto
  next
    case lt: True
    show ?thesis
    proof (cases "shd evs")
      case WriteFails
      with eq lt show ?thesis by auto
    next
      case ReadTimeout
      with eq lt have "f block pkt (retries + 1) (tr @ [SendData pkt]) (stl evs) = Some y" by simp
      then show ?thesis by (rule step) (simp add: passOf_iff)
    next
      case ReadFails
      with eq lt show ?thesis by auto
    next
      case (Received n b)
      show ?thesis
      proof (cases "discarded block n b")
        case True
        with eq lt Received
        have "f block pkt retries (tr @ [SendData pkt, Recv n b]) (stl evs) = Some y"
          by (auto simp add: discarded_iff split: if_splits result.splits)
        then show ?thesis by (rule step) (simp add: passOf_iff)
      next
        case False
        then have n: "n = 4" and p: "ParseACK b = Ok \<lparr>AckPacket.Block = block\<rparr>"
          by (simp_all add: not_discarded_iff)
        with eq lt Received have "y = (Exited retries, tr @ [SendData pkt, Recv 4 b], stl evs)"
          by simp
        then show ?thesis
          using p by (simp add: ackedTrace_now)
      qed
    qed
  qed
qed

lemma sendLoop_acked:
  "sendLoop block pkt retries tr evs = Some (Exited r, tr', evs') \<Longrightarrow> r < MaxRetries \<Longrightarrow>
   ackedTrace block pkt tr tr'"
  using sendLoop_acked_aux by blast


section \<open>The transfer loop\<close>

lemma sendLoop_returned_aux:
  assumes "sendLoop block pkt retries tr evs = Some y"
  shows "\<forall>e tr' evs'. y = (Returned e, tr', evs') \<longrightarrow> e = WriteError \<or> e = ReadError"
proof (rule sendLoop.raw_induct[where P = "\<lambda>block pkt retries tr evs y.
          \<forall>e tr' evs'. y = (Returned e, tr', evs') \<longrightarrow> e = WriteError \<or> e = ReadError",
        OF _ assms], goal_cases)
  case (1 f block pkt retries tr evs y)
  note IH = 1(1) and eq = 1(2)
  show ?case
  proof (cases "retries < MaxRetries")
    case False
    with eq show ?thesis by auto
  next
    case lt: True
    show ?thesis
    proof (cases "shd evs")
      case WriteFails
      with eq lt show ?thesis by auto
    next
      case ReadTimeout
      with eq lt IH show ?thesis by simp
    next
      case ReadFails
      with eq lt show ?thesis by auto
    next
      case (Received n b)
      show ?thesis
      proof (cases "discarded block n b")
        case True
        with eq lt Received
        have "f block pkt retries (tr @ [SendData pkt, Recv n b]) (stl evs) = Some y"
          by (auto simp add: discarded_iff split: if_splits result.splits)
        with IH show ?thesis by simp
      next
        case False
        then have n: "n = 4" and p: "ParseACK b = Ok \<lparr>AckPacket.Block = block\<rparr>"
          by (simp_all add: not_discarded_iff)
        with eq lt Received show ?thesis
          by auto
      qed
    qed
  qed
qed

lemma sendLoop_returned:
  "sendLoop block pkt retries tr evs = Some (Returned e, tr', evs') \<Longrightarrow> e \<noteq> Completed"
  using sendLoop_returned_aux by blast

lemma sendError_closed:
  "sendError code msg tr = Ok (tr @ [SendError (be16 ERROR @ be16 code @ msg @ [0])])"
  by (simp add: sendError_def PackERROR_closed)

lemma file_Read_ok:
  "fault_after file = None \<Longrightarrow>
   file_Read file n = (Inr (take n (unread file)), file\<lparr>unread := drop n (unread file)\<rparr>)"
  by (simp add: file_Read_def)

text \<open>One round of the outer loop, once the chunk is read and the send loop has ended.\<close>

lemma serveLoop_round:
  assumes "file_Read file BlockSize = (Inr chunk, file')"
      and "sendLoop block (be16 DATA @ be16 block @ chunk) 0 tr evs = Some (x, tr', evs')"
  shows "serveLoop file block tr evs =
     (case x of
        Returned e \<Rightarrow> Some (e, block, tr')
      | Exited retries \<Rightarrow>
          if MaxRetries \<le> retries
          then Some (NoAck, block,
                 tr' @ [SendError (be16 ERROR @ be16 ErrNotDefined
                          @ str ''Transfer failed: no ACK'' @ [0])])
          else if length chunk < BlockSize then Some (Completed, block + 1, tr')
          else serveLoop file' (block + 1) tr' evs')"
  using assms
  by (subst serveLoop.simps) (simp add: PackDATA_closed sendError_closed Let_def split: loop_exit.splits)

lemma serveLoop_completed_aux:
  assumes "serveLoop file block tr evs = Some y"
  shows "\<forall>b' tr'. y = (Completed, b', tr') \<longrightarrow>
           (\<exists>pre chunk buf. tr' = pre @ [SendData (be16 DATA @ be16 (b' - 1) @ chunk), Recv 4 buf]
              \<and> length chunk < BlockSize \<and> ParseACK buf = Ok \<lparr>AckPacket.Block = b' - 1\<rparr>)"
proof (rule serveLoop.raw_induct[where P = "\<lambda>file block tr evs y.
         \<forall>b' tr'. y = (Completed, b', tr') \<longrightarrow>
           (\<exists>pre chunk buf. tr' = pre @ [SendData (be16 DATA @ be16 (b' - 1) @ chunk), Recv 4 buf]
              \<and> length chunk < BlockSize \<and> ParseACK buf = Ok \<lparr>AckPacket.Block = b' - 1\<rparr>)",
        OF _ assms], goal_cases)
  case (1 f fl block tr evs y)
  note IH = 1(1) and eq = 1(2)
  obtain res file' where rd: "file_Read fl BlockSize = (res, file')"
    by (cases "file_Read fl BlockSize")
  show ?case
  proof (cases res)
    case (Inl fault)
    with eq rd show ?thesis by auto
  next
    case (Inr chunk)
    let ?pkt = "be16 DATA @ be16 block @ chunk"
    show ?thesis
    proof (cases "sendLoop block ?pkt 0 tr evs")
      case None
      with eq rd Inr show ?thesis by (simp add: PackDATA_closed)
    next
      case (Some r)
      obtain x tr1 evs1 where r: "r = (x, tr1, evs1)" by (cases r)
      show ?thesis
      proof (cases x)
        case (Returned e)
        with Some r have "e \<noteq> Completed" by (auto dest: sendLoop_returned)
        with eq rd Inr Some r Returned show ?thesis
          by (auto simp add: PackDATA_closed)
      next
        case (Exited n)
        show ?thesis
        proof (cases "MaxRetries \<le> n")
          case True
          with eq rd Inr Some r Exited show ?thesis
            by (auto simp add: PackDATA_closed sendError_closed)
        next
          case lt: False
          then have "ackedTrace block ?pkt tr tr1"
            using Some r Exited sendLoop_acked[of block ?pkt 0 tr evs n tr1 evs1] by simp
          then obtain mid buf where t: "tr1 = tr @ mid @ [SendData ?pkt, Recv 4 buf]"
            and a: "ParseACK buf = Ok \<lparr>AckPacket.Block = block\<rparr>"
            unfolding ackedTrace_def by blast
          show ?thesis
          proof (cases "length chunk < BlockSize")
            case True
            with eq rd Inr Some r Exited lt have "y = (Completed, block + 1, tr1)"
              by (simp add: PackDATA_closed Let_def)
            then show ?thesis
              using t a True
              by (auto intro!: exI[of _ "tr @ mid"] exI[of _ chunk] exI[of _ buf])
          next
            case False
            with eq rd Inr Some r Exited lt have "f file' (block + 1) tr1 evs1 = Some y"
              by (simp add: PackDATA_closed Let_def)
            then show ?thesis by (rule IH)
          qed
        qed
      qed
    qed
  qed
qed

subsection \<open>Retry exhaustion\<close>

lemma be16_DATA: "be16 DATA = [0, 3]"
  by (simp add: be16_def DATA_def)
lemma be16_ACK: "be16 ACK = [0, 4]"
  by (simp add: be16_def ACK_def)
lemma be16_ERROR: "be16 ERROR = [0, 5]"
  by (simp add: be16_def ERROR_def)
lemma be16_ErrNotDefined: "be16 ErrNotDefined = [0, 0]"
  by (simp add: be16_def ErrNotDefined_def)
lemma be16_ErrAccessViolation: "be16 ErrAccessViolation = [0, 2]"
  by (simp add: be16_def ErrAccessViolation_def)

lemma ParseACK_ack: "ParseACK (be16 ACK @ be16 block) = Ok \<lparr>AckPacket.Block = block\<rparr>"
  using ParseACK_wire[of block "[]"] by simp

lemma ack_matches: "\<not> discarded block 4 (be16 ACK @ be16 block)"
  by (simp add: not_discarded_iff ParseACK_ack)

lemma ack_other_block: "b \<noteq> block \<Longrightarrow> discarded block 4 (be16 ACK @ be16 b)"
  by (simp add: discarded_iff ParseACK_ack)

text \<open>
  Claim C3. The chunk of the outstanding block has been read, and the passes of the send
  loop see only timeouts and discarded datagrams (no matching ack, no transport fault),
  three timeouts among them at least. Then the transfer ends, its last action is the one
  error packet, with code 0 (NotDefined) and the message \<open>Transfer failed: no ACK\<close>, and
  all it did before that was to write the data packet of the outstanding block and to read
  datagrams: no data packet of another block is sent.
\<close>

theorem retry_exhaustion:
  assumes "file_Read file BlockSize = (Inr chunk, file')"
      and "\<forall>e\<in>set pre. e = ReadTimeout \<or> discardedEvent block e"
      and "MaxRetries \<le> length (filter (\<lambda>e. e = ReadTimeout) pre)"
  shows "\<exists>tr'. serveLoop file block tr (pre @- rest)
            = Some (NoAck, block,
                    tr @ tr' @ [SendError ([0, 5, 0, 0] @ str ''Transfer failed: no ACK'' @ [0])])
          \<and> (\<forall>a\<in>set tr'. a = SendData ([0, 3] @ be16 block @ chunk) \<or> (\<exists>n b. a = Recv n b))"
proof -
  let ?pkt = "be16 DATA @ be16 block @ chunk"
  obtain tr' evs' where
    s: "sendLoop block ?pkt 0 tr (pre @- rest) = Some (Exited MaxRetries, tr @ tr', evs')"
    and p: "\<forall>a\<in>set tr'. passOf ?pkt a"
    using sendLoop_gives_up[of pre block 0 ?pkt tr rest] assms(2,3) by auto
  have "serveLoop file block tr (pre @- rest)
          = Some (NoAck, block, (tr @ tr') @ [SendError (be16 ERROR @ be16 ErrNotDefined
                          @ str ''Transfer failed: no ACK'' @ [0])])"
    using serveLoop_round[OF assms(1) s] by simp
  then show ?thesis
    using p by (intro exI[of _ tr']) (simp add: be16_ERROR be16_ErrNotDefined be16_DATA passOf_iff)
qed

theorem retry_exhaustion_witness:
  "file_Read \<lparr>unread = [], fault_after = None\<rparr> BlockSize
      = (Inr [], \<lparr>unread = [], fault_after = None\<rparr>)
   \<and> discarded 1 4 [0, 4, 0, 0]
   \<and> MaxRetries \<le> length (filter (\<lambda>e. e = ReadTimeout)
                      [ReadTimeout, Received 4 [0, 4, 0, 0], ReadTimeout, ReadTimeout])
   \<and> (\<exists>tr'. serveLoop \<lparr>unread = [], fault_after = None\<rparr> 1 []
               ([ReadTimeout, Received 4 [0, 4, 0, 0], ReadTimeout, ReadTimeout] @- sconst WriteFails)
            = Some (NoAck, 1,
                    [] @ tr' @ [SendError ([0, 5, 0, 0] @ str ''Transfer failed: no ACK'' @ [0])]))"
proof -
  let ?pre = "[ReadTimeout, Received 4 [0, 4, 0, 0], ReadTimeout, ReadTimeout]"
  have 1: "file_Read \<lparr>unread = [], fault_after = None\<rparr> BlockSize
      = (Inr [], \<lparr>unread = [], fault_after = None\<rparr>)"
    by (simp add: file_Read_def)
  have d: "discarded 1 4 [0, 4, 0, 0]"
    using ack_other_block[of 0 1] by (simp add: be16_def ACK_def)
  have 2: "\<forall>e\<in>set ?pre. e = ReadTimeout \<or> discardedEvent 1 e"
    using d by simp
  have 3: "MaxRetries \<le> length (filter (\<lambda>e. e = ReadTimeout) ?pre)"
    by (simp add: MaxRetries_def)
  from retry_exhaustion[OF 1 2 3, of "[]" "sconst WriteFails"] 1 d 3 show ?thesis
    by blast
qed

subsection \<open>Discarded datagrams\<close>

text \<open>
  Claim C4. While the ack of \<open>block\<close> is awaited (the loop is in a pass), a datagram of
  which the read did not return four bytes, or that does not parse as an ack, or that is
  the ack of another block, changes neither \<open>retries\<close> nor \<open>block\<close>: the loop goes on
  from the same state, having written the data packet of the pass and read the datagram,
  and waits again for the ack of \<open>block\<close>.
\<close>

theorem ack_mismatch_tolerance:
  assumes "retries < MaxRetries"
      and "n \<noteq> 4 \<or> (\<exists>e. ParseACK ackBuf = Err e)
           \<or> (\<exists>a. ParseACK ackBuf = Ok a \<and> AckPacket.Block a \<noteq> block)"
  shows "sendLoop block pkt retries tr (Received n ackBuf ## evs)
           = sendLoop block pkt retries (tr @ [SendData pkt, Recv n ackBuf]) evs"
  using assms by (intro sendLoop_discard) (simp_all add: discarded_iff)

theorem ack_mismatch_tolerance_witness:
  "(0::nat) < MaxRetries
   \<and> ParseACK [0, 4, 0, 6] = Ok \<lparr>AckPacket.Block = 6\<rparr> \<and> (6::uint16) \<noteq> 7
   \<and> sendLoop 7 [0, 3, 0, 7] 0 [] (Received 4 [0, 4, 0, 6] ## Received 4 [0, 4, 0, 7] ## sconst ReadTimeout)
       = Some (Exited 0, [SendData [0, 3, 0, 7], Recv 4 [0, 4, 0, 6],
                          SendData [0, 3, 0, 7], Recv 4 [0, 4, 0, 7]], sconst ReadTimeout)"
proof -
  have 0: "(0::nat) < MaxRetries" by (simp add: MaxRetries_def)
  have p: "ParseACK [0, 4, 0, 6] = Ok \<lparr>AckPacket.Block = 6\<rparr>"
    using ParseACK_ack[of 6] by (simp add: be16_def ACK_def)
  have m: "\<not> discarded 7 4 [0, 4, 0, 7]"
    using ack_matches[of 7] by (simp add: be16_def ACK_def)
  have "sendLoop 7 [0, 3, 0, 7] 0 [] (Received 4 [0, 4, 0, 6] ## Received 4 [0, 4, 0, 7] ## sconst ReadTimeout)
      = sendLoop 7 [0, 3, 0, 7] 0 ([] @ [SendData [0, 3, 0, 7], Recv 4 [0, 4, 0, 6]])
          (Received 4 [0, 4, 0, 7] ## sconst ReadTimeout)"
    using p by (intro ack_mismatch_tolerance 0) simp
  then show ?thesis
    using 0 p m by (simp add: sendLoop_match)
qed

subsection \<open>When the send loop ends\<close>

lemma sendLoop_ends_clean:
  assumes "\<forall>e\<in>sset rest. \<not> discardedEvent block e"
  shows "\<exists>x tr' k. sendLoop block pkt retries tr rest = Some (x, tr', sdrop k rest)
           \<and> k \<le> MaxRetries - retries"
  using assms
proof (induction "MaxRetries - retries" arbitrary: retries tr rest)
  case 0
  then have "\<not> retries < MaxRetries" by simp
  then have "sendLoop block pkt retries tr rest = Some (Exited retries, tr, sdrop 0 rest)"
    by (simp add: sendLoop_exhausted)
  then show ?case by blast
next
  case (Suc m)
  then have lt: "retries < MaxRetries" by simp
  obtain e rest' where rest: "rest = e ## rest'" by (cases rest)
  have clean: "\<forall>e\<in>sset rest'. \<not> discardedEvent block e"
    using Suc.prems rest by simp
  have one: "\<exists>x tr' k. sendLoop block pkt retries tr rest = Some (x, tr', sdrop k rest)
           \<and> k \<le> MaxRetries - retries"
    if "sendLoop block pkt retries tr rest = Some (x, tr', rest')" for x tr'
    using that lt rest by (intro exI[of _ x] exI[of _ tr'] exI[of _ 1]) simp
  show ?case
  proof (cases e)
    case WriteFails
    then show ?thesis using lt rest by (intro one) (simp add: sendLoop_write_fails)
  next
    case ReadFails
    then show ?thesis using lt rest by (intro one) (simp add: sendLoop_read_fails)
  next
    case (Received n b)
    then have "\<not> discarded block n b" using Suc.prems rest by simp
    then show ?thesis using lt rest Received by (intro one) (simp add: sendLoop_match)
  next
    case ReadTimeout
    have "m = MaxRetries - (retries + 1)" using Suc.hyps(2) by simp
    from Suc.hyps(1)[OF this clean, of "tr @ [SendData pkt]"]
    obtain x tr' k where
      "sendLoop block pkt (retries + 1) (tr @ [SendData pkt]) rest' = Some (x, tr', sdrop k rest')"
      "k \<le> MaxRetries - (retries + 1)"
      by blast
    then show ?thesis
      using lt rest ReadTimeout
      by (intro exI[of _ x] exI[of _ tr'] exI[of _ "Suc k"]) (simp add: sendLoop_timeout)
  qed
qed

text \<open>
  Claim C6, as the code has it. When only finitely many discarded datagrams arrive (after
  the events \<open>pre\<close> no datagram is discarded any more), the send loop ends: it leaves
  after at most one pass for each event of \<open>pre\<close> and \<open>MaxRetries - retries\<close> further
  passes, each pass being one write and one read bounded by the read timeout.
\<close>

theorem send_loop_terminates:
  assumes "\<forall>e\<in>sset rest. \<not> discardedEvent block e"
  shows "\<exists>x tr' k. sendLoop block pkt retries tr (pre @- rest)
            = Some (x, tr', sdrop k (pre @- rest))
          \<and> k \<le> length pre + (MaxRetries - retries)"
proof (induction pre arbitrary: retries tr)
  case Nil
  show ?case using sendLoop_ends_clean[OF assms, of pkt retries tr] by simp
next
  case (Cons e pre)
  have one: "\<exists>x tr' k. sendLoop block pkt retries tr ((e # pre) @- rest)
            = Some (x, tr', sdrop k ((e # pre) @- rest))
          \<and> k \<le> length (e # pre) + (MaxRetries - retries)"
    if "sendLoop block pkt retries tr ((e # pre) @- rest) = Some (x, tr', pre @- rest)" for x tr'
    using that by (intro exI[of _ x] exI[of _ tr'] exI[of _ 1]) simp
  have more: "\<exists>x tr' k. sendLoop block pkt retries tr ((e # pre) @- rest)
            = Some (x, tr', sdrop k ((e # pre) @- rest))
          \<and> k \<le> length (e # pre) + (MaxRetries - retries)"
    if "sendLoop block pkt retries tr ((e # pre) @- rest) = sendLoop block pkt r' t' (pre @- rest)"
       "MaxRetries - r' \<le> MaxRetries - retries" for r' t'
  proof -
    from Cons.IH[of r' t'] obtain x tr' k where
      "sendLoop block pkt r' t' (pre @- rest) = Some (x, tr', sdrop k (pre @- rest))"
      "k \<le> length pre + (MaxRetries - r')"
      by blast
    then show ?thesis
      using that by (intro exI[of _ x] exI[of _ tr'] exI[of _ "Suc k"]) simp
  qed
  show ?case
  proof (cases "retries < MaxRetries")
    case False
    then have "sendLoop block pkt retries tr ((e # pre) @- rest)
        = Some (Exited retries, tr, sdrop 0 ((e # pre) @- rest))"
      by (simp add: sendLoop_exhausted)
    then show ?thesis by blast
  next
    case lt: True
    show ?thesis
    proof (cases e)
      case WriteFails
      then show ?thesis using lt by (intro one) (simp add: sendLoop_write_fails)
    next
      case ReadFails
      then show ?thesis using lt by (intro one) (simp add: sendLoop_read_fails)
    next
      case ReadTimeout
      then show ?thesis using lt
        by (intro more[of "retries + 1" "tr @ [SendData pkt]"]) (simp_all add: sendLoop_timeout)
    next
      case (Received n b)
      show ?thesis
      proof (cases "discarded block n b")
        case True
        then show ?thesis using lt Received
          by (intro more[of retries "tr @ [SendData pkt, Recv n b]"]) (simp_all add: sendLoop_discard)
      next
        case False
        then show ?thesis using lt Received by (intro one) (simp add: sendLoop_match)
      qed
    qed
  qed
qed

theorem send_loop_terminates_witness:
  "\<exists>x tr' k. sendLoop 1 [0, 3, 0, 1] 0 []
                ([Received 4 [0, 4, 0, 0], Received 2 [0, 4, 0, 0]] @- sconst ReadTimeout)
            = Some (x, tr', sdrop k ([Received 4 [0, 4, 0, 0], Received 2 [0, 4, 0, 0]]
                                      @- sconst ReadTimeout))
          \<and> k \<le> length [Received 4 [0, 4, 0, 0], Received 2 [0, 4, 0, 0]] + (MaxRetries - 0)"
proof -
  have c: "\<forall>e\<in>sset (sconst ReadTimeout). \<not> discardedEvent 1 e"
    by simp
  from send_loop_terminates[OF c, of "[0, 3, 0, 1]" 0 "[]"
      "[Received 4 [0, 4, 0, 0], Received 2 [0, 4, 0, 0]]"]
  show ?thesis by blast
qed

lemma sendLoop_flood_aux:
  assumes "sendLoop block pkt retries tr evs = Some y"
  shows "\<not> (retries < MaxRetries \<and> (\<exists>n b. evs = sconst (Received n b) \<and> discarded block n b))"
proof (rule sendLoop.raw_induct[where P = "\<lambda>block pkt retries tr evs y.
          \<not> (retries < MaxRetries \<and> (\<exists>n b. evs = sconst (Received n b) \<and> discarded block n b))",
        OF _ assms], goal_cases)
  case (1 f block pkt retries tr evs y)
  note IH = 1(1) and eq = 1(2)
  show ?case
  proof
    assume "retries < MaxRetries \<and> (\<exists>n b. evs = sconst (Received n b) \<and> discarded block n b)"
    then obtain n b where lt: "retries < MaxRetries" and evs: "evs = sconst (Received n b)"
      and d: "discarded block n b" by blast
    have "f block pkt retries (tr @ [SendData pkt, Recv n b]) evs = Some y"
      using eq lt d unfolding evs
      by (auto simp add: discarded_iff split: if_splits result.splits)
    from IH[OF this] show False
      using lt evs d by blast
  qed
qed

lemma sendLoop_flood:
  "retries < MaxRetries \<Longrightarrow> discarded block n b \<Longrightarrow>
   sendLoop block pkt retries tr (sconst (Received n b)) = None"
  using sendLoop_flood_aux[of block pkt retries tr "sconst (Received n b)"]
  by (cases "sendLoop block pkt retries tr (sconst (Received n b))") auto

text \<open>
  Claim C6 as stated fails: a discarded datagram does not count as a retry, so when the
  ack of block 0 keeps arriving while the ack of block 1 is awaited the loop never ends.
\<close>

theorem stale_ack_flood_counterexample:
  "sendLoop 1 [0, 3, 0, 1] 0 [] (sconst (Received 4 [0, 4, 0, 0])) = None"
proof (rule sendLoop_flood)
  show "0 < MaxRetries" by (simp add: MaxRetries_def)
  show "discarded 1 4 [0, 4, 0, 0]"
    using ack_other_block[of 0 1] by (simp add: be16_def ACK_def)
qed

subsection \<open>Completion\<close>

lemma zero_byte_run:
  "serveLoop \<lparr>unread = [], fault_after = None\<rparr> 1 tr (Received 4 [0, 4, 0, 1] ## evs)
     = Some (Completed, 2, tr @ [SendData [0, 3, 0, 1], Recv 4 [0, 4, 0, 1]])"
proof -
  have 1: "file_Read \<lparr>unread = [], fault_after = None\<rparr> BlockSize
      = (Inr [], \<lparr>unread = [], fault_after = None\<rparr>)"
    by (simp add: file_Read_def)
  have m: "\<not> discarded 1 4 [0, 4, 0, 1]"
    using ack_matches[of 1] by (simp add: be16_def ACK_def)
  have 2: "sendLoop 1 (be16 DATA @ be16 1 @ []) 0 tr (Received 4 [0, 4, 0, 1] ## evs)
      = Some (Exited 0, tr @ [SendData (be16 DATA @ be16 1 @ []), Recv 4 [0, 4, 0, 1]], evs)"
    using m by (intro sendLoop_match) (simp_all add: MaxRetries_def)
  show ?thesis
    using serveLoop_round[OF 1 2]
    by (simp add: MaxRetries_def BlockSize_def be16_def DATA_def)
qed

text \<open>
  Claim C10 as stated fails: \<^verbatim>\<open>block++\<close> comes before the test \<^verbatim>\<open>n < BlockSize\<close>. For an
  empty file the only block sent is block 1, and when the transfer completes \<^verbatim>\<open>block\<close>
  is already 2.
\<close>

theorem completion_after_increment_counterexample:
  "serveLoop \<lparr>unread = [], fault_after = None\<rparr> 1 [] (Received 4 [0, 4, 0, 1] ## sconst ReadTimeout)
     = Some (Completed, 2, [SendData [0, 3, 0, 1], Recv 4 [0, 4, 0, 1]])"
  using zero_byte_run[of "[]" "sconst ReadTimeout"] by simp

text \<open>
  Claim C10, as the code has it. When a transfer completes, its last two actions are the
  write of a data packet with a payload shorter than \<open>BlockSize\<close> and the read of four
  bytes that parse as the ack of that packet's block; the number of that block is one less
  than the final value of \<^verbatim>\<open>block\<close>. So completion waits for the ack, and the test for the
  short block runs after the increment of the block number.
\<close>

theorem completion_is_ack_gated:
  assumes "serveLoop file block tr evs = Some (Completed, b', tr')"
  shows "\<exists>pre chunk buf.
           tr' = pre @ [SendData ([0, 3] @ be16 (b' - 1) @ chunk), Recv 4 buf]
           \<and> length chunk < BlockSize
           \<and> ParseACK buf = Ok \<lparr>AckPacket.Block = b' - 1\<rparr>"
  using serveLoop_completed_aux[OF assms] by (simp add: be16_DATA)

theorem completion_is_ack_gated_witness:
  "serveLoop \<lparr>unread = [], fault_after = None\<rparr> 1 [] (Received 4 [0, 4, 0, 1] ## sconst WriteFails)
     = Some (Completed, 2, [SendData [0, 3, 0, 1], Recv 4 [0, 4, 0, 1]])
   \<and> (\<exists>pre chunk buf.
           [SendData [0, 3, 0, 1], Recv 4 [0, 4, 0, 1]]
             = pre @ [SendData ([0, 3] @ be16 (2 - 1) @ chunk), Recv 4 buf]
           \<and> length chunk < BlockSize
           \<and> ParseACK buf = Ok \<lparr>AckPacket.Block = 2 - 1\<rparr>)"
proof -
  have r: "serveLoop \<lparr>unread = [], fault_after = None\<rparr> 1 [] (Received 4 [0, 4, 0, 1] ## sconst WriteFails)
     = Some (Completed, 2, [SendData [0, 3, 0, 1], Recv 4 [0, 4, 0, 1]])"
    using zero_byte_run[of "[]" "sconst WriteFails"] by simp
  from completion_is_ack_gated[OF r] r show ?thesis by blast
qed



section \<open>The blocks of a completed transfer\<close>

lemma map_upt_Suc_shift: "map f [0..<Suc n] = f 0 # map (\<lambda>i. f (Suc i)) [0..<n]"
proof -
  have "[0..<Suc n] = 0 # map Suc [0..<n]"
    by (metis map_Suc_upt upt_conv_Cons zero_less_Suc)
  then show ?thesis
    by (simp only: list.map map_map comp_def)
qed

lemma dataBlocks_short:
  "length content < BlockSize \<Longrightarrow> dataBlocks block content = [be16 DATA @ be16 block @ content]"
  by (simp add: dataBlocks_def)

lemma dataBlocks_long:
  assumes "\<not> length content < BlockSize"
  shows "dataBlocks block content =
     (be16 DATA @ be16 block @ take BlockSize content)
       # dataBlocks (block + 1) (drop BlockSize content)"
proof -
  let ?F = "\<lambda>i. be16 DATA @ be16 (block + of_nat i) @ take BlockSize (drop (BlockSize * i) content)"
  let ?G = "\<lambda>i. be16 DATA @ be16 (block + 1 + of_nat i)
                  @ take BlockSize (drop (BlockSize * i) (drop BlockSize content))"
  let ?m = "length (drop BlockSize content) div BlockSize"
  have pos: "0 < BlockSize" by (simp add: BlockSize_def)
  have d: "length content div BlockSize + 1 = Suc (Suc ?m)"
    using assms pos by (simp add: le_div_geq)
  have FG: "(\<lambda>i. ?F (Suc i)) = ?G"
    by (rule ext) (simp add: add.assoc add.commute[of BlockSize])
  have "dataBlocks block content = map ?F [0..<Suc (Suc ?m)]"
    unfolding dataBlocks_def d ..
  also have "\<dots> = ?F 0 # map (\<lambda>i. ?F (Suc i)) [0..<Suc ?m]"
    by (rule map_upt_Suc_shift)
  also have "\<dots> = ?F 0 # map ?G [0..<Suc ?m]"
    unfolding FG ..
  also have "map ?G [0..<Suc ?m] = dataBlocks (block + 1) (drop BlockSize content)"
    unfolding dataBlocks_def by (simp only: Suc_eq_plus1)
  finally show ?thesis by simp
qed

lemma dataBlocks_unfold:
  "dataBlocks block content =
     (be16 DATA @ be16 block @ take BlockSize content)
       # (if length content < BlockSize then [] else dataBlocks (block + 1) (drop BlockSize content))"
  by (simp add: dataBlocks_short dataBlocks_long)

lemma dataSent_append: "dataSent (xs @ ys) = dataSent xs @ dataSent ys"
  by (induction xs rule: dataSent.induct) simp_all

lemma dataSent_passes:
  "\<forall>a\<in>set mid. passOf pkt a \<Longrightarrow> dataSent mid = replicate (length (dataSent mid)) pkt"
  by (induction mid rule: dataSent.induct) (auto simp add: passOf_iff)

lemma remdups_adj_repeated:
  "ys = [] \<or> hd ys \<noteq> p \<Longrightarrow> remdups_adj (replicate m p @ p # ys) = p # remdups_adj ys"
proof (induction m)
  case 0
  then show ?case by (cases ys) auto
next
  case (Suc m)
  then show ?case by (cases m) auto
qed

lemma data_packet_block:
  "be16 DATA @ be16 b @ x = be16 DATA @ be16 c @ y \<Longrightarrow> b = c"
  by (auto dest: be16_inj)

lemma serveLoop_blocks_aux:
  assumes "serveLoop file block tr evs = Some y"
  shows "fault_after file = None \<longrightarrow>
         (\<forall>b' tr'. y = (Completed, b', tr') \<longrightarrow>
            (\<exists>new. tr' = tr @ new \<and> remdups_adj (dataSent new) = dataBlocks block (unread file)))"
proof (rule serveLoop.raw_induct[where P = "\<lambda>file block tr evs y.
         fault_after file = None \<longrightarrow>
         (\<forall>b' tr'. y = (Completed, b', tr') \<longrightarrow>
            (\<exists>new. tr' = tr @ new \<and> remdups_adj (dataSent new) = dataBlocks block (unread file)))",
        OF _ assms], goal_cases)
  case (1 f fl block tr evs y)
  note IH = 1(1) and eq = 1(2)
  show ?case
  proof (intro impI allI)
    fix b' tr'
    assume ok: "fault_after fl = None" and y: "y = (Completed, b', tr')"
    let ?chunk = "take BlockSize (unread fl)"
    let ?file' = "fl\<lparr>unread := drop BlockSize (unread fl)\<rparr>"
    let ?pkt = "be16 DATA @ be16 block @ ?chunk"
    have rd: "file_Read fl BlockSize = (Inr ?chunk, ?file')"
      using ok by (rule file_Read_ok)
    show "\<exists>new. tr' = tr @ new \<and> remdups_adj (dataSent new) = dataBlocks block (unread fl)"
    proof (cases "sendLoop block ?pkt 0 tr evs")
      case None
      with eq rd show ?thesis by (simp add: PackDATA_closed)
    next
      case (Some r)
      obtain x tr1 evs1 where r: "r = (x, tr1, evs1)" by (cases r)
      show ?thesis
      proof (cases x)
        case (Returned e)
        with Some r have "e \<noteq> Completed" by (auto dest: sendLoop_returned)
        with eq rd Some r Returned y show ?thesis
          by (auto simp add: PackDATA_closed)
      next
        case (Exited n)
        show ?thesis
        proof (cases "MaxRetries \<le> n")
          case True
          with eq rd Some r Exited y show ?thesis
            by (auto simp add: PackDATA_closed sendError_closed)
        next
          case lt: False
          then have "ackedTrace block ?pkt tr tr1"
            using Some r Exited sendLoop_acked[of block ?pkt 0 tr evs n tr1 evs1] by simp
          then obtain mid buf where t: "tr1 = tr @ mid @ [SendData ?pkt, Recv 4 buf]"
            and p: "\<forall>a\<in>set mid. passOf ?pkt a"
            unfolding ackedTrace_def by blast
          have ds: "dataSent (mid @ [SendData ?pkt, Recv 4 buf] @ more)
                      = replicate (length (dataSent mid)) ?pkt @ ?pkt # dataSent more" for more
            using dataSent_passes[OF p] by (simp add: dataSent_append)
          have sc: "(length ?chunk < BlockSize) = (length (unread fl) < BlockSize)"
            by (simp add: min_less_iff_disj)
          show ?thesis
          proof (cases "length (unread fl) < BlockSize")
            case True
            then have short: "length (unread fl) < BlockSize" by simp
            from True eq rd Some r Exited lt have "y = (Completed, block + 1, tr1)"
              by (simp add: PackDATA_closed Let_def sc)
            with y have "tr' = tr @ (mid @ [SendData ?pkt, Recv 4 buf] @ [])"
              using t by simp
            moreover have "remdups_adj (dataSent (mid @ [SendData ?pkt, Recv 4 buf] @ []))
                = dataBlocks block (unread fl)"
              unfolding ds using short
              by (subst dataBlocks_unfold) (simp add: remdups_adj_repeated)
            ultimately show ?thesis by blast
          next
            case False
            then have long: "\<not> length (unread fl) < BlockSize" by simp
            from False eq rd Some r Exited lt have "f ?file' (block + 1) tr1 evs1 = Some y"
              by (simp add: PackDATA_closed Let_def sc)
            from IH[OF this] ok y obtain new2 where
              n2: "tr' = tr1 @ new2"
              and b2: "remdups_adj (dataSent new2) = dataBlocks (block + 1) (drop BlockSize (unread fl))"
              by auto
            have ne: "dataSent new2 \<noteq> []"
              using b2 by (subst (asm) dataBlocks_unfold) auto
            have "hd (dataSent new2) = hd (remdups_adj (dataSent new2))"
              by (simp add: hd_remdups_adj)
            also have "\<dots> = be16 DATA @ be16 (block + 1) @ take BlockSize (drop BlockSize (unread fl))"
              unfolding b2 by (subst dataBlocks_unfold) simp
            finally have "hd (dataSent new2) \<noteq> ?pkt"
              using data_packet_block[of "block + 1" _ block ?chunk] by auto
            then have "remdups_adj (dataSent (mid @ [SendData ?pkt, Recv 4 buf] @ new2))
                = ?pkt # dataBlocks (block + 1) (drop BlockSize (unread fl))"
              unfolding ds using b2 by (simp add: remdups_adj_repeated)
            also have "\<dots> = dataBlocks block (unread fl)"
              using long by (subst (2) dataBlocks_unfold) simp
            finally show ?thesis
              using n2 t by (intro exI[of _ "mid @ [SendData ?pkt, Recv 4 buf] @ new2"]) simp
          qed
        qed
      qed
    qed
  qed
qed

lemma promptAcks_unfold: "promptAcks block = ackOf block ## promptAcks (block + 1)"
  unfolding promptAcks_def by (subst siterate.code) simp

lemma prompt_client_completes:
  "fault_after fl = None \<Longrightarrow>
   \<exists>b' tr'. serveLoop fl block tr (promptAcks block) = Some (Completed, b', tr')"
proof (induction "length (unread fl)" arbitrary: fl block tr rule: less_induct)
  case less
  let ?chunk = "take BlockSize (unread fl)"
  let ?file' = "fl\<lparr>unread := drop BlockSize (unread fl)\<rparr>"
  let ?pkt = "be16 DATA @ be16 block @ ?chunk"
  let ?tr1 = "tr @ [SendData ?pkt, Recv 4 (be16 ACK @ be16 block)]"
  have rd: "file_Read fl BlockSize = (Inr ?chunk, ?file')"
    using less.prems by (rule file_Read_ok)
  have sl: "sendLoop block ?pkt 0 tr (promptAcks block) = Some (Exited 0, ?tr1, promptAcks (block + 1))"
    by (subst promptAcks_unfold)
       (simp add: ackOf_def sendLoop_match ack_matches MaxRetries_def)
  have sc: "(length ?chunk < BlockSize) = (length (unread fl) < BlockSize)"
    by (simp add: min_less_iff_disj)
  show ?case
  proof (cases "length (unread fl) < BlockSize")
    case True
    then show ?thesis
      using serveLoop_round[OF rd sl] by (simp add: MaxRetries_def sc)
  next
    case False
    then have "length (unread ?file') < length (unread fl)"
      by (simp add: BlockSize_def)
    from less.hyps[OF this, of "block + 1" ?tr1] less.prems
    obtain b' tr' where "serveLoop ?file' (block + 1) ?tr1 (promptAcks (block + 1)) = Some (Completed, b', tr')"
      by auto
    then show ?thesis
      using False serveLoop_round[OF rd sl] by (simp add: MaxRetries_def sc)
  qed
qed

lemma dataBlocks_multiple:
  assumes "length content = BlockSize * k"
  shows "dataBlocks block content =
     map (\<lambda>i. [0, 3] @ be16 (block + of_nat i) @ take BlockSize (drop (BlockSize * i) content)) [0..<k]
       @ [([0, 3] @ be16 (block + of_nat k))]"
proof -
  have "length content div BlockSize = k"
    using assms by (simp add: BlockSize_def)
  then show ?thesis
    using assms by (simp add: dataBlocks_def be16_DATA)
qed

text \<open>
  Claim C2. The file holds \<open>k\<close> full chunks of \<open>BlockSize\<close> bytes and nothing more, and no
  read of it fails. With a client that acknowledges every block the transfer completes.
  Whatever the network does, a transfer that completes has sent, retransmissions of a block
  counted once, the \<open>k\<close> full blocks numbered from 1 and then one more block with an empty
  payload. For the empty file that is the single packet \<open>00 03 00 01\<close>, and the transfer
  completes as soon as the ack of block 1 has been read.
\<close>

theorem termination_rule:
  assumes "length content = BlockSize * k"
  shows "(\<exists>b' tr'. serveLoop \<lparr>unread = content, fault_after = None\<rparr> 1 tr (promptAcks 1)
             = Some (Completed, b', tr'))
       \<and> (\<forall>evs b' tr'.
             serveLoop \<lparr>unread = content, fault_after = None\<rparr> 1 tr evs = Some (Completed, b', tr')
             \<longrightarrow> (\<exists>new. tr' = tr @ new
                   \<and> remdups_adj (dataSent new)
                       = map (\<lambda>i. [0, 3] @ be16 (1 + of_nat i)
                                     @ take BlockSize (drop (BlockSize * i) content)) [0..<k]
                         @ [([0, 3] @ be16 (1 + of_nat k))]))
       \<and> serveLoop \<lparr>unread = [], fault_after = None\<rparr> 1 tr (Received 4 [0, 4, 0, 1] ## rest)
             = Some (Completed, 2, tr @ [SendData [0, 3, 0, 1], Recv 4 [0, 4, 0, 1]])"
proof (intro conjI allI impI)
  show "\<exists>b' tr'. serveLoop \<lparr>unread = content, fault_after = None\<rparr> 1 tr (promptAcks 1)
             = Some (Completed, b', tr')"
    by (rule prompt_client_completes) simp
next
  fix evs b' tr'
  assume "serveLoop \<lparr>unread = content, fault_after = None\<rparr> 1 tr evs = Some (Completed, b', tr')"
  from serveLoop_blocks_aux[OF this]
  show "\<exists>new. tr' = tr @ new
                   \<and> remdups_adj (dataSent new)
                       = map (\<lambda>i. [0, 3] @ be16 (1 + of_nat i)
                                     @ take BlockSize (drop (BlockSize * i) content)) [0..<k]
                         @ [([0, 3] @ be16 (1 + of_nat k))]"
    by (simp add: dataBlocks_multiple[OF assms])
next
  show "serveLoop \<lparr>unread = [], fault_after = None\<rparr> 1 tr (Received 4 [0, 4, 0, 1] ## rest)
             = Some (Completed, 2, tr @ [SendData [0, 3, 0, 1], Recv 4 [0, 4, 0, 1]])"
    by (rule zero_byte_run)
qed

theorem termination_rule_witness:
  "length (replicate 512 (7::byte)) = BlockSize * 1
   \<and> (\<exists>b' new. serveLoop \<lparr>unread = replicate 512 7, fault_after = None\<rparr> 1 [] (promptAcks 1)
             = Some (Completed, b', [] @ new)
         \<and> remdups_adj (dataSent new) = ([0, 3, 0, 1] @ replicate 512 7) # [0, 3, 0, 2] # [])"
proof -
  have l: "length (replicate 512 (7::byte)) = BlockSize * 1"
    by (simp add: BlockSize_def)
  note t = termination_rule[OF l, of "[]"]
  from t obtain b' tr' where
    r: "serveLoop \<lparr>unread = replicate 512 7, fault_after = None\<rparr> 1 [] (promptAcks 1)
          = Some (Completed, b', tr')"
    by blast
  with t obtain new where n: "tr' = [] @ new"
    and "remdups_adj (dataSent new)
           = map (\<lambda>i. [0, 3] @ be16 (1 + of_nat i)
                         @ take BlockSize (drop (BlockSize * i) (replicate 512 7))) [0..<1]
             @ [([0, 3] @ be16 (1 + of_nat 1))]"
    by blast
  then have "remdups_adj (dataSent new) = ([0, 3, 0, 1] @ replicate 512 7) # [0, 3, 0, 2] # []"
    by (simp add: be16_def BlockSize_def)
  with l r n show ?thesis by blast
qed


section \<open>Requests that leave the root\<close>

lemma firstSegment_prefix: "firstSegment relPath = p \<Longrightarrow> HasPrefix relPath p"
  unfolding firstSegment_def HasPrefix_def
  by (metis length_takeWhile_le takeWhile_eq_take)

lemma reject_closed:
  "reject e code msg tr = Some (e, tr @ [SendError (be16 ERROR @ be16 code @ msg @ [0])])"
  by (simp add: reject_def sendError_closed)

lemma escaping_name_denied:
  assumes "ReadRequest.Mode rrq \<in> {ModeNetascii, ModeOctet, ModeMail}"
      and "resolvesOutside sys BaseDir (ReadRequest.Filename rrq)"
  shows "serveReadRequest sys BaseDir rrq evs
           = Some (AccessDenied, [SendError ([0, 5, 0, 2] @ str ''Access denied'' @ [0])])"
proof -
  let ?filename = "Clean sys (Join sys BaseDir (Clean sys (ReadRequest.Filename rrq)))"
  have m: "\<not> (ReadRequest.Mode rrq \<noteq> ModeOctet \<and> ReadRequest.Mode rrq \<noteq> ModeNetascii
         \<and> ReadRequest.Mode rrq \<noteq> ModeMail)"
    using assms(1) by auto
  have r: "reject AccessDenied ErrAccessViolation (str ''Access denied'') []
             = Some (AccessDenied, [SendError ([0, 5, 0, 2] @ str ''Access denied'' @ [0])])"
    by (simp add: reject_closed be16_ERROR be16_ErrAccessViolation)
  show ?thesis
  proof (cases "Rel sys BaseDir ?filename")
    case None
    then show ?thesis
      unfolding serveReadRequest_def using m r by (auto simp add: Let_def)
  next
    case (Some relPath)
    then have "firstSegment relPath = str ''..''"
      using assms(2) by (simp add: resolvesOutside_def)
    then have "HasPrefix relPath (str ''..'')"
      by (rule firstSegment_prefix)
    then show ?thesis
      unfolding serveReadRequest_def using m r Some by (auto simp add: Let_def)
  qed
qed

lemma unsupported_mode_rejected:
  assumes "ReadRequest.Mode rrq \<notin> {ModeNetascii, ModeOctet, ModeMail}"
  shows "serveReadRequest sys BaseDir rrq evs
           = Some (UnsupportedTransferMode,
                   [SendError ([0, 5, 0, 0] @ str ''Unsupported transfer mode'' @ [0])])"
proof -
  have m: "ReadRequest.Mode rrq \<noteq> ModeOctet \<and> ReadRequest.Mode rrq \<noteq> ModeNetascii
         \<and> ReadRequest.Mode rrq \<noteq> ModeMail"
    using assms by auto
  have r: "reject UnsupportedTransferMode ErrNotDefined (str ''Unsupported transfer mode'') []
             = Some (UnsupportedTransferMode,
                     [SendError ([0, 5, 0, 0] @ str ''Unsupported transfer mode'' @ [0])])"
    by (simp add: reject_closed be16_ERROR be16_ErrNotDefined)
  show ?thesis
    unfolding serveReadRequest_def using m r by simp
qed

lemma passwd_resolves_outside:
  "resolvesOutside plainPaths (str ''/srv/tftp-root'') (str ''../../etc/passwd'')"
  by (simp add: resolvesOutside_def plainPaths_def firstSegment_def str_def)

lemma binary_not_a_mode: "str ''binary'' \<notin> {ModeNetascii, ModeOctet, ModeMail}"
  by (simp add: ModeNetascii_def ModeOctet_def ModeMail_def str_def)

text \<open>
  Claim C5 as stated fails: the mode is tested before the path, and \<open>ParseRRQ\<close> accepts
  any mode. A read request for \<open>../../etc/passwd\<close> with the mode \<open>binary\<close> resolves
  outside the root and is answered with code 0 (NotDefined) and the message
  \<open>Unsupported transfer mode\<close>, not with code 2 and \<open>Access denied\<close>.
\<close>

theorem escaping_name_bad_mode_counterexample:
  "resolvesOutside plainPaths (str ''/srv/tftp-root'') (str ''../../etc/passwd'')
   \<and> serveReadRequest plainPaths (str ''/srv/tftp-root'')
        \<lparr>ReadRequest.Filename = str ''../../etc/passwd'', Mode = str ''binary''\<rparr>
        (sconst ReadTimeout)
      = Some (UnsupportedTransferMode,
              [SendError ([0, 5, 0, 0] @ str ''Unsupported transfer mode'' @ [0])])
   \<and> serveReadRequest plainPaths (str ''/srv/tftp-root'')
        \<lparr>ReadRequest.Filename = str ''../../etc/passwd'', Mode = str ''binary''\<rparr>
        (sconst ReadTimeout)
      \<noteq> Some (AccessDenied, [SendError ([0, 5, 0, 2] @ str ''Access denied'' @ [0])])"
  using passwd_resolves_outside binary_not_a_mode
    unsupported_mode_rejected[of
      "\<lparr>ReadRequest.Filename = str ''../../etc/passwd'', Mode = str ''binary''\<rparr>"
      plainPaths "str ''/srv/tftp-root''" "sconst ReadTimeout"]
  by simp

text \<open>
  Claim C5, as the code has it. A request whose filename resolves outside the root is
  always rejected, by one error packet, and \<^verbatim>\<open>os.Open\<close> is never called for it, whatever
  the path functions, the file system and the network are: no file is opened among the
  actions of the server. The packet has code 2 (AccessViolation) and the message
  \<open>Access denied\<close> when the mode of the request is one of \<open>netascii\<close>, \<open>octet\<close>,
  \<open>mail\<close>; for any other mode the mode test comes first, and the packet has code 0
  (NotDefined) and the message \<open>Unsupported transfer mode\<close>.
\<close>

theorem path_containment:
  assumes "resolvesOutside sys BaseDir (ReadRequest.Filename rrq)"
  shows "serveReadRequest sys BaseDir rrq evs
           = (if ReadRequest.Mode rrq \<in> {str ''netascii'', str ''octet'', str ''mail''}
              then Some (AccessDenied,
                         [SendError ([0, 5, 0, 2] @ str ''Access denied'' @ [0])])
              else Some (UnsupportedTransferMode,
                         [SendError ([0, 5, 0, 0] @ str ''Unsupported transfer mode'' @ [0])]))
         \<and> (\<forall>e tr. serveReadRequest sys BaseDir rrq evs = Some (e, tr)
                \<longrightarrow> (\<forall>path. OpenFile path \<notin> set tr))"
proof -
  have modes: "{str ''netascii'', str ''octet'', str ''mail''} = {ModeNetascii, ModeOctet, ModeMail}"
    by (simp add: ModeNetascii_def ModeOctet_def ModeMail_def)
  show ?thesis
  proof (cases "ReadRequest.Mode rrq \<in> {ModeNetascii, ModeOctet, ModeMail}")
    case True
    from escaping_name_denied[OF True assms, of evs] True show ?thesis
      unfolding modes by simp
  next
    case False
    from unsupported_mode_rejected[OF False, of sys BaseDir evs] False show ?thesis
      unfolding modes by simp
  qed
qed

theorem path_containment_witness:
  "resolvesOutside plainPaths (str ''/srv/tftp-root'') (str ''../../etc/passwd'')
   \<and> serveReadRequest plainPaths (str ''/srv/tftp-root'')
        \<lparr>ReadRequest.Filename = str ''../../etc/passwd'', Mode = str ''octet''\<rparr>
        (sconst ReadTimeout)
      = Some (AccessDenied, [SendError ([0, 5, 0, 2] @ str ''Access denied'' @ [0])])
   \<and> serveReadRequest plainPaths (str ''/srv/tftp-root'')
        \<lparr>ReadRequest.Filename = str ''../../etc/passwd'', Mode = str ''OCTET''\<rparr>
        (sconst ReadTimeout)
      = Some (UnsupportedTransferMode,
              [SendError ([0, 5, 0, 0] @ str ''Unsupported transfer mode'' @ [0])])"
proof -
  have o: "str ''octet'' \<in> {str ''netascii'', str ''octet'', str ''mail''}"
    by simp
  have u: "str ''OCTET'' \<notin> {str ''netascii'', str ''octet'', str ''mail''}"
    by (simp add: str_def)
  from path_containment[of plainPaths "str ''/srv/tftp-root''"
      "\<lparr>ReadRequest.Filename = str ''../../etc/passwd'', Mode = str ''octet''\<rparr>"
      "sconst ReadTimeout"]
    path_containment[of plainPaths "str ''/srv/tftp-root''"
      "\<lparr>ReadRequest.Filename = str ''../../etc/passwd'', Mode = str ''OCTET''\<rparr>"
      "sconst ReadTimeout"]
    o u passwd_resolves_outside
  show ?thesis by simp
qed

end
